theory Spec2Isabelle
  imports Complex_Main
begin

section \<open>Errors\<close>

text \<open>
  Every way the modelled Python can stop is a value of \<open>error\<close>.
  \<^item> \<open>AssertionError\<close>: a failed \<open>assert\<close>.
  \<^item> \<open>ValueError\<close>: \<open>max()\<close> of an empty sequence, a row that does not unpack into
    three columns, \<open>int()\<close> of a string that is not a number.
  \<^item> \<open>RuntimeError\<close>: raised by torch (a Python integer that does not fit the tensor's
    integer type, \<open>max()\<close> of a tensor without elements).
  \<^item> \<open>ZeroDivisionError\<close>: a Python-level division or modulo by zero.
  \<^item> \<open>NonFinite\<close>: not an exception. Tensor entries are modelled as real numbers; where
    the float computation divides by zero its result is \<open>inf\<close> or \<open>nan\<close> and has no
    value in this model, which stops there with \<open>NonFinite\<close>.
\<close>

datatype error = AssertionError | ValueError | RuntimeError | ZeroDivisionError | NonFinite

section \<open>Input packing (\<open>make_input\<close>, finetune_cpm1.py)\<close>

text \<open>
  Token ids are Python integers (\<open>int\<close>). \<open>torch.tensor(input)\<close> stores them as 64-bit
  integers and raises when one does not fit; \<open>.int()\<close> narrows to 32 bits, wrapping
  around. \<open>spans\<close> and \<open>max_length\<close> are counts (\<open>nat\<close>); \<open>range(spans)\<close> yields
  \<open>spans\<close> indices. The scalar \<open>torch.tensor(length, dtype=torch.int32)\<close> raises when
  the length does not fit 32 bits. The returned mask \<open>context\<close> is the field
  \<open>input_context\<close>, the name the callers bind it to.
\<close>

definition in_int64 :: "int \<Rightarrow> bool" where
  "in_int64 t \<longleftrightarrow> - (2 ^ 63) \<le> t \<and> t < 2 ^ 63"

definition in_int32 :: "int \<Rightarrow> bool" where
  "in_int32 t \<longleftrightarrow> - (2 ^ 31) \<le> t \<and> t < 2 ^ 31"

definition int32 :: "int \<Rightarrow> int" where
  "int32 t = (t + 2 ^ 31) mod 2 ^ 32 - 2 ^ 31"

record packed =
  input_tokens :: "int list"
  input_length :: int
  input_context :: "bool list"
  input_span :: "int list"

definition make_input :: "int list \<Rightarrow> int list \<Rightarrow> nat \<Rightarrow> nat \<Rightarrow> error + packed" where
  "make_input lef_tokens rig_tokens spans max_length =
     (let inp = lef_tokens @ replicate spans 0 @ rig_tokens;
          len = length inp
      in if \<not> len < max_length then Inl AssertionError
         else if \<not> list_all in_int64 inp then Inl RuntimeError
         else if \<not> in_int32 (int len) then Inl RuntimeError
         else Inr \<lparr> input_tokens = map int32 inp @ replicate (max_length - len) 0,
                    input_length = int len,
                    input_context = map (\<lambda>i. i < length lef_tokens \<or> length lef_tokens + spans \<le> i)
                                  [0..<max_length],
                    input_span = replicate max_length 0 \<rparr>)"


section \<open>The paraphrase dataset (\<open>LCQMC_Dataset.__init__\<close>, finetune_cpm1.py)\<close>

text \<open>
  The constructor reads the tab-separated file into \<open>reader\<close>, a list of rows, each a list
  of column strings; that list is the model's input. Strings are UTF-8 byte strings.
  \<open>rank\<close> and \<open>world_size\<close> are Python integers; \<open>//\<close> and \<open>%\<close> round towards minus
  infinity, as \<open>div\<close> and \<open>mod\<close> on \<open>int\<close> do, and raise on a zero divisor.
  The tokenizer's \<open>encode\<close> and Python's built-in \<open>int()\<close> on a string (\<open>None\<close> where
  it raises ValueError) are parameters.
\<close>

record example = packed +
  target :: int
  index :: "int list"

definition quote :: string where
  "quote = [CHR 0x22]"

definition prompt :: "string \<Rightarrow> string \<Rightarrow> string" where
  "prompt text_a text_b =
     quote @ text_a @ quote @ [CHR 0xE4, CHR 0xB8, CHR 0x8E] @ quote @ text_b @ quote
       @ [CHR 0xE7, CHR 0x9A, CHR 0x84, CHR 0xE5, CHR 0x85, CHR 0xB3,
          CHR 0xE7, CHR 0xB3, CHR 0xBB, CHR 0xE6, CHR 0x98, CHR 0xAF] @ '':''"

definition full_stop :: string where
  "full_stop = [CHR 0xE3, CHR 0x80, CHR 0x82]"

text \<open>The body of the loop for a row that is not skipped.\<close>

definition build_example ::
  "(string \<Rightarrow> int list) \<Rightarrow> (string \<Rightarrow> int option) \<Rightarrow> nat \<Rightarrow> string list \<Rightarrow> error + example"
where
  "build_example encode py_int max_length row =
     (case row of
        [text_a, text_b, label] \<Rightarrow>
          (let lef_tokens = 1 # encode (prompt text_a text_b);
               rig_tokens = encode full_stop
           in case make_input lef_tokens rig_tokens 1 max_length of
                Inl e \<Rightarrow> Inl e
              | Inr p \<Rightarrow>
                  (case py_int label of
                     None \<Rightarrow> Inl ValueError
                   | Some l \<Rightarrow>
                       if \<not> in_int64 l then Inl RuntimeError
                       else Inr (packed.extend p
                              \<lparr> target = l,
                                index = (replicate max_length 0)[length lef_tokens - 1 := 1] \<rparr>)))
      | _ \<Rightarrow> Inl ValueError)"

text \<open>The loop over \<open>enumerate(reader)\<close>; \<open>self.data\<close> is returned in append order.\<close>

fun collect ::
  "(string list \<Rightarrow> error + 'a) \<Rightarrow> int \<Rightarrow> int \<Rightarrow> int \<Rightarrow> (nat \<times> string list) list
     \<Rightarrow> error + 'a list"
where
  "collect build max_id rank world_size [] = Inr []"
| "collect build max_id rank world_size ((i, row) # rest) =
     (if i = 0 \<or> int i > max_id then collect build max_id rank world_size rest
      else if int i mod world_size \<noteq> rank then collect build max_id rank world_size rest
      else case build row of
             Inl e \<Rightarrow> Inl e
           | Inr x \<Rightarrow>
               (case collect build max_id rank world_size rest of
                  Inl e \<Rightarrow> Inl e
                | Inr xs \<Rightarrow> Inr (x # xs)))"

definition LCQMC_Dataset ::
  "string list list \<Rightarrow> int \<Rightarrow> int \<Rightarrow> (string \<Rightarrow> int list) \<Rightarrow> (string \<Rightarrow> int option) \<Rightarrow> nat
     \<Rightarrow> error + example list"
where
  "LCQMC_Dataset reader rank world_size encode py_int max_length =
     (if world_size = 0 then Inl ZeroDivisionError
      else let max_id = (int (length reader) - 1) div world_size * world_size
           in collect (build_example encode py_int max_length) max_id rank world_size
                (enumerate 0 reader))"

text \<open>
  The rows of a rank as the specification states them, in file order: the row numbers
  \<open>i\<close> with \<open>1 \<le> i \<le> ((R - 1) // world_size) * world_size\<close> and \<open>i % world_size = rank\<close>.
  The constructor is compared with this list.
\<close>

definition assigned :: "nat \<Rightarrow> int \<Rightarrow> int \<Rightarrow> nat list" where
  "assigned R rank world_size =
     filter (\<lambda>i. 1 \<le> i \<and> int i \<le> (int R - 1) div world_size * world_size
                  \<and> int i mod world_size = rank) [0..<R]"

section \<open>Gradient-norm clipping (\<open>clip_grad_norm\<close>, finetune_cpm1.py)\<close>

text \<open>
  A gradient tensor is the list of its entries, taken as real numbers: rounding and
  overflow of the float arithmetic are not modelled. A worker holds
  \<open>optimizer.param_groups\<close>, the parameter objects of each group named by a number, and
  the gradient of each parameter object (\<open>None\<close>: no gradient). \<open>mul_\<close> changes a
  gradient in place, so a parameter object listed twice is scaled twice.
  The norm type is \<open>'inf'\<close> or a number of which \<open>float()\<close> is taken; the model admits
  the natural numbers (the default is 2).
\<close>

type_synonym tensor = "real list"

record worker =
  param_groups :: "nat list list"
  grad :: "nat \<Rightarrow> tensor option"

datatype norm_type = NormInf | NormP nat

datatype reduce_op = ReduceSum | ReduceMax

definition default_norm_type :: norm_type where
  "default_norm_type = NormP 2"

definition default_eps :: real where
  "default_eps = 1 / 10 ^ 6"

text \<open>\<open>[p for group in param_groups for p in group['params'] if p.grad is not None]\<close>\<close>

definition parameters :: "worker \<Rightarrow> nat list" where
  "parameters w = filter (\<lambda>p. grad w p \<noteq> None) (concat (param_groups w))"

text \<open>The tensors \<open>p.grad.data\<close> for \<open>p\<close> in \<open>parameters\<close>, in that order.\<close>

definition grad_tensors :: "worker \<Rightarrow> tensor list" where
  "grad_tensors w = List.map_filter (grad w) (concat (param_groups w))"

text \<open>Python's \<open>max\<close> of a sequence and torch's \<open>max()\<close> of a tensor's absolute values.\<close>

fun py_max :: "real list \<Rightarrow> error + real" where
  "py_max [] = Inl ValueError"
| "py_max (x # xs) = Inr (fold max xs x)"

fun abs_max :: "tensor \<Rightarrow> error + real" where
  "abs_max [] = Inl RuntimeError"
| "abs_max (x # xs) = Inr (fold max (map abs xs) \<bar>x\<bar>)"

text \<open>\<open>p.grad.data.float().norm(norm_type)\<close>\<close>

definition tensor_norm :: "nat \<Rightarrow> tensor \<Rightarrow> real" where
  "tensor_norm k g = root k (\<Sum>x\<leftarrow>g. \<bar>x\<bar> ^ k)"

text \<open>The first failure of a sequence of computations, or all their results.\<close>

fun sequence :: "('e + 'a) list \<Rightarrow> 'e + 'a list" where
  "sequence [] = Inr []"
| "sequence (Inl e # rs) = Inl e"
| "sequence (Inr x # rs) = (case sequence rs of Inl e \<Rightarrow> Inl e | Inr xs \<Rightarrow> Inr (x # xs))"

text \<open>
  What one worker computes before the collective call: the value of \<open>total_norm_cuda\<close>
  it contributes. \<open>max\<close> consumes a generator, so the first tensor without elements
  raises; no tracked parameter at all makes \<open>max\<close> raise.
\<close>

fun local_norm :: "norm_type \<Rightarrow> worker \<Rightarrow> error + real" where
  "local_norm NormInf w =
     (case sequence (map abs_max (grad_tensors w)) of
        Inl e \<Rightarrow> Inl e
      | Inr ms \<Rightarrow> py_max ms)"
| "local_norm (NormP k) w =
     Inr (fold (\<lambda>g total. total + tensor_norm k g ^ k) (grad_tensors w) 0)"

text \<open>
  Modelled from the spec: \<open>nccl.allReduce\<close> belongs to the distributed-training framework
  and is not in the source tree. The glossary: a collective that combines (reduces) the
  per-worker values into a result visible identically to every worker, here with a sum
  or a maximum. Its arguments are the value of rank 0 and the values of the other ranks.
\<close>

fun allReduce :: "reduce_op \<Rightarrow> real \<Rightarrow> real list \<Rightarrow> real" where
  "allReduce ReduceSum x xs = fold (+) xs x"
| "allReduce ReduceMax x xs = fold max xs x"

text \<open>
  The value of \<open>total_norm\<close> on every worker. A worker that raises before the collective
  call stops the run. \<open>1. / norm_type\<close> is a Python float division and raises on zero.
\<close>

definition global_norm :: "norm_type \<Rightarrow> worker list \<Rightarrow> error + real" where
  "global_norm nt ws =
     (case sequence (map (local_norm nt) ws) of
        Inl e \<Rightarrow> Inl e
      | Inr [] \<Rightarrow> Inr 0
      | Inr (x # xs) \<Rightarrow>
          (case nt of
             NormInf \<Rightarrow> Inr (allReduce ReduceMax x xs)
           | NormP k \<Rightarrow>
               if k = 0 then Inl ZeroDivisionError
               else Inr (root k (allReduce ReduceSum x xs))))"

text \<open>\<open>p.grad.data.mul_(c)\<close>, the in-place multiplication.\<close>

definition mul_in_place :: "real \<Rightarrow> nat \<Rightarrow> worker \<Rightarrow> worker" where
  "mul_in_place c p w = w\<lparr> grad := (grad w)(p := map_option (map (\<lambda>x. x * c)) (grad w p)) \<rparr>"

definition clip_coef :: "real \<Rightarrow> real \<Rightarrow> real \<Rightarrow> real \<Rightarrow> real" where
  "clip_coef max_norm scale eps total_norm = (max_norm * scale) / (total_norm + eps)"

text \<open>
  What one worker does after the collective call: it returns its gradients, rescaled or
  not, and \<open>total_norm / scale\<close>. Where \<open>total_norm + eps\<close> or \<open>scale\<close> is zero a float
  division by zero happens and the model stops.
\<close>

definition rescale :: "real \<Rightarrow> real \<Rightarrow> real \<Rightarrow> real \<Rightarrow> worker \<Rightarrow> error + worker \<times> real" where
  "rescale max_norm scale eps total_norm w =
     (if total_norm + eps = 0 \<or> scale = 0 then Inl NonFinite
      else Inr (if clip_coef max_norm scale eps total_norm < 1
                then fold (mul_in_place (clip_coef max_norm scale eps total_norm)) (parameters w) w
                else w,
                total_norm / scale))"

text \<open>
  All workers call \<open>clip_grad_norm\<close> with the same arguments; each gets its own state back
  and the returned norm. With no worker nothing runs.
\<close>

definition clip_grad_norm ::
  "worker list \<Rightarrow> real \<Rightarrow> real \<Rightarrow> norm_type \<Rightarrow> real \<Rightarrow> error + (worker \<times> real) list"
where
  "clip_grad_norm ws max_norm scale nt eps =
     (case global_norm nt ws of
        Inl e \<Rightarrow> Inl e
      | Inr total_norm \<Rightarrow> sequence (map (rescale max_norm scale eps total_norm) ws))"

text \<open>All gradient entries of all workers, in rank order.\<close>

definition all_entries :: "worker list \<Rightarrow> real list" where
  "all_entries ws = concat (concat (map grad_tensors ws))"

section \<open>Gathering the predictions (\<open>finetune\<close>, finetune_gpt2.py)\<close>

text \<open>
  A buffer cell is \<open>None\<close> while it holds whatever \<open>torch.empty\<close> left there. The local
  lists come out of tensors (\<open>tolist\<close>) and go through \<open>.int()\<close>.
\<close>

type_synonym 'a buffer = "'a option list"

definition write_block :: "'a buffer \<Rightarrow> nat \<Rightarrow> 'a list \<Rightarrow> 'a buffer" where
  "write_block buf off xs =
     take (length buf) (take off buf @ map Some xs @ drop (off + length xs) buf)"

text \<open>
  Modelled from the spec: \<open>nccl.allGather\<close> belongs to the distributed-training framework
  and is not in the source tree. The spec: a collective that concatenates the per-worker
  values, ordered by worker rank and keeping each worker's local order, into a
  pre-allocated buffer, under the assumption that every worker sends the same number of
  values. Rank \<open>me\<close> sends \<open>n\<close> values and receives \<open>n\<close> values of rank \<open>j\<close> at offset
  \<open>j * n\<close>; what happens to a worker that sends fewer is not specified, and here its
  cells keep their old content.
\<close>

definition allGather :: "'a list list \<Rightarrow> nat \<Rightarrow> 'a buffer \<Rightarrow> 'a buffer" where
  "allGather srcs me dst =
     (let n = length (srcs ! me)
      in fold (\<lambda>j buf. write_block buf (j * n) (take n (srcs ! j))) [0..<length srcs] dst)"

text \<open>
  Lines 200 to 209 on rank \<open>me\<close>, for one of the two lists; \<open>pds\<close> holds the list \<open>pd\<close>
  (or \<open>gt\<close>) of every rank and \<open>config["world_size"]\<close> is their number.
\<close>

definition gather_global :: "int list list \<Rightarrow> nat \<Rightarrow> int buffer" where
  "gather_global pds me =
     (let pd = pds ! me;
          world_size = length pds;
          pd_local = map (map int32) pds;
          pd_global = replicate (length pd * world_size) None
      in allGather pd_local me pd_global)"

section \<open>The embedding layer (model_center/layer/embedding.py)\<close>

text \<open>
  Tensors of rank three are nested lists of reals. The kernels \<open>OpEmbedding.apply\<close>,
  \<open>F.linear\<close> and \<open>ct.transpose\<close> come from libraries and are parameters; they may raise.
  The module is passed in and returned, so that a change of its weight would show.
\<close>

type_synonym tensor3 = "real list list list"

record embedding =
  dim_model :: nat
  weight :: "real list list"
  length_scale :: bool
  int8 :: bool

text \<open>
  \<open>t / math.sqrt(dim_model)\<close>: every entry divided by a Python float. With a zero divisor
  the entries, if there are any, become \<open>inf\<close> or \<open>nan\<close>.
\<close>

definition div_scalar :: "tensor3 \<Rightarrow> real \<Rightarrow> error + tensor3" where
  "div_scalar t d =
     (if d = 0 \<and> concat (concat t) \<noteq> [] then Inl NonFinite
      else Inr (map (map (map (\<lambda>x. x / d))) t))"

definition forward ::
  "(int list list \<Rightarrow> real list list \<Rightarrow> error + tensor3) \<Rightarrow> embedding \<Rightarrow> int list list
     \<Rightarrow> error + embedding \<times> tensor3"
where
  "forward OpEmbedding self ids =
     (case OpEmbedding ids (weight self) of
        Inl e \<Rightarrow> Inl e
      | Inr embeds \<Rightarrow>
          if length_scale self
          then (case div_scalar embeds (sqrt (real (dim_model self))) of
                  Inl e \<Rightarrow> Inl e
                | Inr embeds' \<Rightarrow> Inr (self, embeds'))
          else Inr (self, embeds))"

definition projection ::
  "(tensor3 \<Rightarrow> real list list \<Rightarrow> error + tensor3) \<Rightarrow> (tensor3 \<Rightarrow> error + tensor3) \<Rightarrow> embedding
     \<Rightarrow> tensor3 \<Rightarrow> error + embedding \<times> tensor3"
where
  "projection F_linear ct_transpose self x =
     (case (if length_scale self then div_scalar x (sqrt (real (dim_model self))) else Inr x) of
        Inl e \<Rightarrow> Inl e
      | Inr x' \<Rightarrow>
          (case ct_transpose x' of
             Inl e \<Rightarrow> Inl e
           | Inr xt \<Rightarrow>
               (case F_linear xt (weight self) of
                  Inl e \<Rightarrow> Inl e
                | Inr logits \<Rightarrow> Inr (self, logits))))"

section \<open>Sample inputs\<close>

text \<open>A file of a header and three rows, with a tokenizer and a number parser to run it.\<close>

definition demo_reader :: "string list list" where
  "demo_reader = [[''text_a'', ''text_b'', ''label''], [''x'', ''y'', ''1''], [''u'', ''v'', ''0''],
                  [''p'', ''q'', ''1'']]"

definition demo_encode :: "string \<Rightarrow> int list" where
  "demo_encode s = [7, 8]"

definition demo_int :: "string \<Rightarrow> int option" where
  "demo_int s = (if s = ''1'' then Some 1 else if s = ''0'' then Some 0 else None)"

text \<open>An embedding module of two words and four dimensions, with kernels for it.\<close>

definition demo_embedding :: embedding where
  "demo_embedding = \<lparr> dim_model = 4, weight = [[2, 4, 6, 8], [1, 3, 5, 7]],
                       length_scale = True, int8 = False \<rparr>"

text \<open>A lookup kernel for a batch of one sequence, giving a tensor (1, embedding size, sequence length).\<close>

definition demo_lookup :: "int list list \<Rightarrow> real list list \<Rightarrow> error + tensor3" where
  "demo_lookup ids w = Inr (map (\<lambda>row. List.transpose (map (\<lambda>i. w ! nat i) row)) ids)"

definition demo_transpose :: "tensor3 \<Rightarrow> error + tensor3" where
  "demo_transpose t = Inr (map List.transpose t)"

definition demo_linear :: "tensor3 \<Rightarrow> real list list \<Rightarrow> error + tensor3" where
  "demo_linear t w = Inr (map (map (\<lambda>v. map (\<lambda>row. sum_list (map2 (*) v row)) w)) t)"

text \<open>
  Workers: two with one gradient tensor each, one with two groups and a parameter
  without gradient.
\<close>

definition worker_a :: worker where
  "worker_a = \<lparr> param_groups = [[0]], grad = (\<lambda>p. None)(0 := Some [3, 4]) \<rparr>"

definition worker_b :: worker where
  "worker_b = \<lparr> param_groups = [[0]], grad = (\<lambda>p. None)(0 := Some [0, 0]) \<rparr>"

definition worker_c :: worker where
  "worker_c = \<lparr> param_groups = [[0, 1], [2]],
                 grad = (\<lambda>p. None)(0 := Some [1, - 2], 2 := Some [- 4]) \<rparr>"

text \<open>Workers before and after a clipping call.\<close>

definition worker_a_clipped :: worker where
  "worker_a_clipped =
     \<lparr> param_groups = [[0]], grad = (\<lambda>p. None)(0 := Some [3000000 / 5000001, 4000000 / 5000001]) \<rparr>"

definition worker_two :: worker where
  "worker_two = \<lparr> param_groups = [[0]], grad = (\<lambda>p. None)(0 := Some [2]) \<rparr>"

definition worker_two_clipped :: worker where
  "worker_two_clipped = \<lparr> param_groups = [[0]], grad = (\<lambda>p. None)(0 := Some [4000001 / 2000001]) \<rparr>"

definition worker_a_exact :: worker where
  "worker_a_exact = \<lparr> param_groups = [[0]], grad = (\<lambda>p. None)(0 := Some [6 / 10, 8 / 10]) \<rparr>"

definition worker_a_clipped_twice :: worker where
  "worker_a_clipped_twice =
     \<lparr> param_groups = [[0]],
       grad = (\<lambda>p. None)(0 := Some [3000000000000 / 5000005000001,
                                      4000000000000 / 5000005000001]) \<rparr>"

section \<open>Sequencing of failures\<close>

lemma sequence_map_Inr: "sequence (map Inr xs) = Inr xs"
  by (induction xs) simp_all

lemma sequence_Inr_D: "sequence rs = Inr xs \<Longrightarrow> rs = map Inr xs"
proof (induction rs arbitrary: xs rule: sequence.induct)
  case 1 then show ?case by simp
next
  case (2 e rs) then show ?case by simp
next
  case (3 x rs)
  then show ?case by (auto split: sum.splits)
qed

lemma sequence_Inr: "sequence rs = Inr xs \<longleftrightarrow> rs = map Inr xs"
  using sequence_Inr_D sequence_map_Inr by blast

lemma sequence_all_Inr:
  assumes "\<forall>x \<in> set xs. f x = Inr (g x)"
  shows "sequence (map f xs) = Inr (map g xs)"
  using assms by (induction xs) simp_all

section \<open>Properties of input packing\<close>

lemma int32_id: "in_int32 t \<Longrightarrow> int32 t = t"
  by (simp add: in_int32_def int32_def)

lemma in_int32_int64: "in_int32 t \<Longrightarrow> in_int64 t"
  by (simp add: in_int32_def in_int64_def)

lemma map_int32_id: "list_all in_int32 xs \<Longrightarrow> map int32 xs = xs"
  by (induction xs) (simp_all add: int32_id)

lemma list_all_int32_int64: "list_all in_int32 xs \<Longrightarrow> list_all in_int64 xs"
  by (induction xs) (simp_all add: in_int32_int64)

lemma make_input_run:
  assumes len: "length lef_tokens + spans + length rig_tokens < max_length"
    and lef: "list_all in_int64 lef_tokens" and rig: "list_all in_int64 rig_tokens"
    and size: "max_length \<le> 2 ^ 31"
  shows "make_input lef_tokens rig_tokens spans max_length =
      Inr \<lparr> input_tokens = map int32 (lef_tokens @ replicate spans 0 @ rig_tokens)
                @ replicate (max_length - (length lef_tokens + spans + length rig_tokens)) 0,
            input_length = int (length lef_tokens + spans + length rig_tokens),
            input_context = map (\<lambda>i. i < length lef_tokens \<or> length lef_tokens + spans \<le> i)
                                  [0..<max_length],
            input_span = replicate max_length 0 \<rparr>"
proof -
  let ?inp = "lef_tokens @ replicate spans 0 @ rig_tokens"
  have n: "length ?inp = length lef_tokens + spans + length rig_tokens" by simp
  have ok64: "list_all in_int64 ?inp"
    using lef rig by (auto simp: list_all_iff in_int64_def)
  have fits: "in_int32 (int (length ?inp))"
    using len size unfolding n in_int32_def by simp
  show ?thesis
    unfolding make_input_def Let_def using len ok64 fits
    by (simp only: n if_False if_True not_not simp_thms)
qed

text \<open>
  Claim C6. For token lists (token ids that fit the 32-bit tensor), a span count and a
  maximum length (a 32-bit size) with \<open>len(lef_tokens) + spans + len(rig_tokens) < max_length\<close>,
  \<open>make_input\<close> returns a token tensor of width \<open>max_length\<close> whose first entries are
  \<open>lef_tokens\<close>, then \<open>spans\<close> zeros, then \<open>rig_tokens\<close>, padded with zeros; the length
  field is the combined count; the context mask has width \<open>max_length\<close> and is true
  everywhere except at the positions \<open>len(lef_tokens) \<le> i < len(lef_tokens) + spans\<close>.
\<close>

theorem make_input_packs:
  assumes len: "length lef_tokens + spans + length rig_tokens < max_length"
    and lef: "list_all in_int32 lef_tokens" and rig: "list_all in_int32 rig_tokens"
    and size: "max_length \<le> 2 ^ 31"
  shows "\<exists>p. make_input lef_tokens rig_tokens spans max_length = Inr p
           \<and> length (input_tokens p) = max_length
           \<and> take (length lef_tokens + spans + length rig_tokens) (input_tokens p)
               = lef_tokens @ replicate spans 0 @ rig_tokens
           \<and> drop (length lef_tokens + spans + length rig_tokens) (input_tokens p)
               = replicate (max_length - (length lef_tokens + spans + length rig_tokens)) 0
           \<and> input_length p = int (length lef_tokens + spans + length rig_tokens)
           \<and> length (input_context p) = max_length
           \<and> (\<forall>i < max_length. input_context p ! i
                 \<longleftrightarrow> \<not> (length lef_tokens \<le> i \<and> i < length lef_tokens + spans))"
proof -
  let ?inp = "lef_tokens @ replicate spans 0 @ rig_tokens"
  have all32: "list_all in_int32 ?inp"
    using lef rig by (auto simp: list_all_iff in_int32_def)
  have conv: "map int32 ?inp = ?inp" using all32 by (rule map_int32_id)
  note run = make_input_run [OF len list_all_int32_int64 [OF lef] list_all_int32_int64 [OF rig] size]
  show ?thesis
    unfolding run conv using len by auto
qed

theorem make_input_packs_witness:
  "\<exists>p. make_input [1, 5] [7] 2 8 = Inr p
       \<and> length (input_tokens p) = 8
       \<and> take 5 (input_tokens p) = [1, 5, 0, 0, 7]
       \<and> drop 5 (input_tokens p) = [0, 0, 0]
       \<and> input_length p = 5
       \<and> input_context p = [True, True, False, False, True, True, True, True]"
proof -
  have "\<exists>p. make_input [1, 5] [7] 2 8 = Inr p
       \<and> length (input_tokens p) = 8
       \<and> take (length [1, 5 :: int] + 2 + length [7 :: int]) (input_tokens p) = [1, 5] @ replicate 2 0 @ [7]
       \<and> drop (length [1, 5 :: int] + 2 + length [7 :: int]) (input_tokens p) = replicate (8 - (length [1, 5 :: int] + 2 + length [7 :: int])) 0
       \<and> input_length p = int (length [1, 5 :: int] + 2 + length [7 :: int])
       \<and> length (input_context p) = 8
       \<and> (\<forall>i < 8. input_context p ! i \<longleftrightarrow> \<not> (length [1, 5 :: int] \<le> i \<and> i < length [1, 5 :: int] + 2))"
    by (rule make_input_packs) (simp_all add: in_int32_def)
  then obtain p where p: "make_input [1, 5] [7] 2 8 = Inr p" "length (input_tokens p) = 8"
      "take 5 (input_tokens p) = [1, 5, 0, 0, 7]" "drop 5 (input_tokens p) = [0, 0, 0]"
      "input_length p = 5" 
    by (auto simp: numeral_eq_Suc)
  have "make_input [1, 5] [7] 2 8 = Inr \<lparr> input_tokens = [1,5,0,0,7,0,0,0], input_length = 5,
     input_context = [True, True, False, False, True, True, True, True], input_span = [0,0,0,0,0,0,0,0] \<rparr>"
    by (simp add: make_input_def in_int64_def in_int32_def int32_def upt_rec numeral_eq_Suc)
  with p show ?thesis by auto
qed

text \<open>
  Claim C7. \<open>make_input\<close> fails its assertion if and only if the combined length
  \<open>len(lef_tokens) + spans + len(rig_tokens)\<close> is at least \<open>max_length\<close>; below
  \<open>max_length\<close> it checks nothing else and succeeds (the token ids being integers torch
  can store, and \<open>max_length\<close> a 32-bit size).
\<close>

theorem make_input_assertion:
  "(make_input lef_tokens rig_tokens spans max_length = Inl AssertionError
      \<longleftrightarrow> max_length \<le> length lef_tokens + spans + length rig_tokens)
   \<and> (length lef_tokens + spans + length rig_tokens < max_length
        \<and> list_all in_int64 lef_tokens \<and> list_all in_int64 rig_tokens \<and> max_length \<le> 2 ^ 31
      \<longrightarrow> (\<exists>p. make_input lef_tokens rig_tokens spans max_length = Inr p))"
proof (intro conjI impI)
  show "make_input lef_tokens rig_tokens spans max_length = Inl AssertionError
      \<longleftrightarrow> max_length \<le> length lef_tokens + spans + length rig_tokens"
    by (auto simp: make_input_def Let_def)
next
  assume "length lef_tokens + spans + length rig_tokens < max_length
        \<and> list_all in_int64 lef_tokens \<and> list_all in_int64 rig_tokens \<and> max_length \<le> 2 ^ 31"
  then show "\<exists>p. make_input lef_tokens rig_tokens spans max_length = Inr p"
    using make_input_run by blast
qed

theorem make_input_assertion_witness:
  "make_input [1, 5] [7] 2 5 = Inl AssertionError
   \<and> make_input [1, 5] [7] 2 4 = Inl AssertionError
   \<and> (\<exists>p. make_input [1, 5] [7] 2 6 = Inr p)"
proof -
  have a: "make_input [1, 5] [7] 2 5 = Inl AssertionError"
    using make_input_assertion [of "[1, 5]" "[7]" 2 5] by simp
  have b: "make_input [1, 5] [7] 2 4 = Inl AssertionError"
    using make_input_assertion [of "[1, 5]" "[7]" 2 4] by simp
  have c: "\<exists>p. make_input [1, 5] [7] 2 6 = Inr p"
    using make_input_assertion [of "[1, 5]" "[7]" 2 6] by (simp add: in_int64_def)
  from a b c show ?thesis by simp
qed

section \<open>Properties of the dataset constructor\<close>


lemma block_count:
  fixes w r :: nat
  assumes "r < w"
  shows "length (filter (\<lambda>i. i mod w = r) [a..<a + w]) = 1"
proof (induction a)
  case 0
  have "filter (\<lambda>i. i mod w = r) [0..<w] = filter (\<lambda>i. i = r) [0..<w]"
    by (rule filter_cong) auto
  also have "\<dots> = [r]"
    using assms
  proof (induction w)
    case 0 then show ?case by simp
  next
    case (Suc w) then show ?case by (cases "r = w") auto
  qed
  finally show ?case by simp
next
  case (Suc a)
  have w: "0 < w" using assms by simp
  have l: "[a..<a + w] = a # [Suc a..<a + w]" using w by (simp add: upt_conv_Cons)
  have r: "[Suc a..<Suc a + w] = [Suc a..<a + w] @ [a + w]" using w by simp
  have m: "(a + w) mod w = a mod w" by simp
  show ?case using Suc unfolding l r by (auto simp: m split: if_splits)
qed

lemma residue_count:
  fixes w r :: nat
  assumes "r < w"
  shows "length (filter (\<lambda>i. i mod w = r) [1..<Suc (k * w)]) = k"
proof (induction k)
  case 0 show ?case by simp
next
  case (Suc k)
  have split: "[1..<Suc (Suc k * w)] = [1..<Suc (k * w)] @ [Suc (k * w)..<Suc (k * w) + w]"
    using upt_add_eq_append [of 1 "Suc (k * w)" w] by (simp add: add.commute)
  show ?case unfolding split using Suc block_count [OF assms, of "Suc (k * w)"] by simp
qed



lemma collect_sequence:
  "collect build m r w ps =
     sequence (map (\<lambda>p. build (snd p))
       (filter (\<lambda>p. 1 \<le> fst p \<and> int (fst p) \<le> m \<and> int (fst p) mod w = r) ps))"
proof (induction ps)
  case Nil show ?case by simp
next
  case (Cons p ps)
  obtain i row where p: "p = (i, row)" by (cases p)
  show ?case
  proof (cases "1 \<le> i \<and> int i \<le> m \<and> int i mod w = r")
    case True
    then have a: "\<not> (i = 0 \<or> int i > m)" and b: "\<not> int i mod w \<noteq> r" by auto
    have "collect build m r w (p # ps) =
        (case build row of Inl e \<Rightarrow> Inl e
         | Inr x \<Rightarrow> (case collect build m r w ps of Inl e \<Rightarrow> Inl e | Inr xs \<Rightarrow> Inr (x # xs)))"
      unfolding p using a b by (simp only: collect.simps if_False)
    then show ?thesis using True Cons by (cases "build row") (simp_all add: p)
  next
    case False
    then have "i = 0 \<or> int i > m \<or> int i mod w \<noteq> r" by auto
    then show ?thesis unfolding p using False Cons by auto
  qed
qed

lemma enumerate_nth: "enumerate 0 xs = map (\<lambda>i. (i, xs ! i)) [0..<length xs]"
  by (rule nth_equalityI) (simp_all add: nth_enumerate_eq)

lemma filter_window:
  assumes "n < R"
  shows "filter (\<lambda>i. 1 \<le> i \<and> i \<le> n) [0..<R] = [1..<Suc n]"
proof -
  have a: "[0..<R] = [0..<1] @ [1..<Suc n] @ [Suc n..<R]"
    using assms upt_add_eq_append [of 0 "Suc n" "R - Suc n"]
      upt_add_eq_append [of 0 1 n] by simp
  have b: "filter (\<lambda>i. 1 \<le> i \<and> i \<le> n) [1..<Suc n] = [1..<Suc n]"
    by (rule filter_True) auto
  have c: "filter (\<lambda>i. 1 \<le> i \<and> i \<le> n) [Suc n..<R] = []"
    by (rule filter_False) auto
  have d: "filter (\<lambda>i. 1 \<le> i \<and> i \<le> n) [0..<1] = []"
    by simp
  show ?thesis
    by (subst a) (simp only: filter_append b c d append_Nil append_Nil2)
qed

lemma assigned_count:
  assumes W: "1 \<le> world_size" and r0: "0 \<le> rank" and rW: "rank < world_size" and R: "1 \<le> R"
  shows "int (length (assigned R rank world_size)) = (int R - 1) div world_size"
proof -
  define w where "w = nat world_size"
  define r where "r = nat rank"
  define k where "k = nat ((int R - 1) div world_size)"
  have wpos: "0 < w" and rw: "r < w" using W r0 rW by (simp_all add: w_def r_def)
  have kint: "int k = (int R - 1) div world_size"
    using W R by (simp add: k_def pos_imp_zdiv_nonneg_iff)
  have Wint: "world_size = int w" and rint: "rank = int r" using W r0 by (simp_all add: w_def r_def)
  have kw: "int (k * w) = (int R - 1) div world_size * world_size"
    by (simp add: kint Wint)
  have "(int R - 1) div world_size * world_size \<le> int R - 1"
    using W div_mult_mod_eq [of "int R - 1" world_size] pos_mod_sign [of world_size "int R - 1"]
    by linarith
  then have bound: "k * w < R" using kw R by linarith
  have pred: "(1 \<le> i \<and> int i \<le> (int R - 1) div world_size * world_size \<and> int i mod world_size = rank)
      \<longleftrightarrow> ((1 \<le> i \<and> i \<le> k * w) \<and> i mod w = r)" for i
  proof -
    have "int i \<le> (int R - 1) div world_size * world_size \<longleftrightarrow> i \<le> k * w"
      unfolding kw [symmetric] by (simp only: of_nat_le_iff)
    moreover have "int i mod world_size = rank \<longleftrightarrow> i mod w = r"
      unfolding Wint rint by (simp only: of_nat_mod [symmetric] of_nat_eq_iff)
    ultimately show ?thesis by simp
  qed
  have "assigned R rank world_size = filter (\<lambda>i. i mod w = r) (filter (\<lambda>i. 1 \<le> i \<and> i \<le> k * w) [0..<R])"
    unfolding assigned_def filter_filter by (rule filter_cong) (auto simp only: pred)
  also have "\<dots> = filter (\<lambda>i. i mod w = r) [1..<Suc (k * w)]"
    by (simp only: filter_window [OF bound])
  finally show ?thesis using residue_count [OF rw, of k] kint by simp
qed


lemma LCQMC_Dataset_sequence:
  assumes "world_size \<noteq> 0"
  shows "LCQMC_Dataset reader rank world_size encode py_int max_length =
     sequence (map (\<lambda>i. build_example encode py_int max_length (reader ! i))
                 (assigned (length reader) rank world_size))"
  using assms
  by (simp add: LCQMC_Dataset_def Let_def collect_sequence enumerate_nth filter_map comp_def
        assigned_def)

text \<open>
  Claim C9. For a file of \<open>R \<ge> 1\<close> rows (the header included) and \<open>world_size \<ge> 1\<close>, the
  constructor gives rank \<open>r\<close> in \<open>[0, world_size)\<close> exactly the rows \<open>i\<close> with
  \<open>1 \<le> i \<le> ((R - 1) // world_size) * world_size\<close> and \<open>i % world_size = r\<close>, in file
  order: it returns the examples built from these rows, or the first failure of building
  one. There are \<open>(R - 1) // world_size\<close> such rows for every rank, so all ranks hold
  the same number of examples.
\<close>

theorem LCQMC_Dataset_assignment:
  assumes W: "1 \<le> world_size" and r0: "0 \<le> rank" and rW: "rank < world_size"
    and R: "1 \<le> length reader"
  shows "int (length (assigned (length reader) rank world_size))
           = (int (length reader) - 1) div world_size
       \<and> LCQMC_Dataset reader rank world_size encode py_int max_length
           = sequence (map (\<lambda>i. build_example encode py_int max_length (reader ! i))
                         (assigned (length reader) rank world_size))
       \<and> (\<forall>data. LCQMC_Dataset reader rank world_size encode py_int max_length = Inr data
            \<longrightarrow> int (length data) = (int (length reader) - 1) div world_size
              \<and> list_all2 (\<lambda>i ex. build_example encode py_int max_length (reader ! i) = Inr ex)
                   (assigned (length reader) rank world_size) data)"
proof -
  let ?ids = "assigned (length reader) rank world_size"
  have count: "int (length ?ids) = (int (length reader) - 1) div world_size"
    using W r0 rW R by (rule assigned_count)
  have run: "LCQMC_Dataset reader rank world_size encode py_int max_length
           = sequence (map (\<lambda>i. build_example encode py_int max_length (reader ! i)) ?ids)"
    using W by (intro LCQMC_Dataset_sequence) simp
  have "int (length data) = (int (length reader) - 1) div world_size
        \<and> list_all2 (\<lambda>i ex. build_example encode py_int max_length (reader ! i) = Inr ex) ?ids data"
    if "LCQMC_Dataset reader rank world_size encode py_int max_length = Inr data" for data
  proof -
    from that run
    have eq: "map (\<lambda>i. build_example encode py_int max_length (reader ! i)) ?ids = map Inr data"
      by (simp add: sequence_Inr)
    then have len: "length ?ids = length data" by (metis length_map)
    have "list_all2 (\<lambda>i ex. build_example encode py_int max_length (reader ! i) = Inr ex) ?ids data"
      unfolding list_all2_conv_all_nth
    proof (intro conjI allI impI)
      show "length ?ids = length data" by (rule len)
    next
      fix j assume j: "j < length ?ids"
      have "map (\<lambda>i. build_example encode py_int max_length (reader ! i)) ?ids ! j = map Inr data ! j"
        by (simp only: eq)
      then show "build_example encode py_int max_length (reader ! (?ids ! j)) = Inr (data ! j)"
        using j len by simp
    qed
    then show ?thesis using count len by simp
  qed
  with count run show ?thesis by blast
qed

theorem LCQMC_Dataset_assignment_witness:
  "assigned 4 0 2 = [2] \<and> assigned 4 1 2 = [1]
   \<and> (\<exists>ex. LCQMC_Dataset demo_reader 0 2 demo_encode demo_int 8 = Inr [ex] \<and> target ex = 0)
   \<and> (\<exists>ex. LCQMC_Dataset demo_reader 1 2 demo_encode demo_int 8 = Inr [ex] \<and> target ex = 1)"
proof -
  have len: "length demo_reader = 4" by (simp add: demo_reader_def)
  have a0: "assigned 4 0 2 = [2]" and a1: "assigned 4 1 2 = [1]"
    by (simp_all add: assigned_def upt_rec numeral_eq_Suc)
  have b0: "build_example demo_encode demo_int 8 (demo_reader ! 2) = Inr
      \<lparr>input_tokens = [1, 7, 8, 0, 7, 8, 0, 0], input_length = 6,
         input_context = [True, True, True, False, True, True, True, True],
         input_span = [0, 0, 0, 0, 0, 0, 0, 0], target = 0,
         index = [0, 0, 1, 0, 0, 0, 0, 0]\<rparr>"
    by (simp add: build_example_def demo_reader_def demo_encode_def demo_int_def make_input_def
        in_int64_def in_int32_def int32_def packed.defs upt_rec numeral_eq_Suc)
  have b1: "build_example demo_encode demo_int 8 (demo_reader ! 1) = Inr
      \<lparr>input_tokens = [1, 7, 8, 0, 7, 8, 0, 0], input_length = 6,
         input_context = [True, True, True, False, True, True, True, True],
         input_span = [0, 0, 0, 0, 0, 0, 0, 0], target = 1,
         index = [0, 0, 1, 0, 0, 0, 0, 0]\<rparr>"
    by (simp add: build_example_def demo_reader_def demo_encode_def demo_int_def make_input_def
        in_int64_def in_int32_def int32_def packed.defs upt_rec numeral_eq_Suc)
  have r0: "LCQMC_Dataset demo_reader 0 2 demo_encode demo_int 8
      = sequence (map (\<lambda>i. build_example demo_encode demo_int 8 (demo_reader ! i)) (assigned 4 0 2))"
    using LCQMC_Dataset_assignment [of 2 0 demo_reader demo_encode demo_int 8] by (simp add: len)
  have r1: "LCQMC_Dataset demo_reader 1 2 demo_encode demo_int 8
      = sequence (map (\<lambda>i. build_example demo_encode demo_int 8 (demo_reader ! i)) (assigned 4 1 2))"
    using LCQMC_Dataset_assignment [of 2 1 demo_reader demo_encode demo_int 8] by (simp add: len)
  show ?thesis
    unfolding r0 r1 a0 a1 using b0 b1 by simp
qed

section \<open>Properties of the gathering of predictions\<close>



lemma length_concat_equal:
  assumes "\<forall>s \<in> set srcs. length s = n"
  shows "length (concat srcs) = length srcs * n"
  using assms by (induction srcs) simp_all

lemma gather_prefix:
  assumes eq: "\<forall>s \<in> set srcs. length s = n" and m: "m \<le> length srcs"
  shows "fold (\<lambda>j buf. write_block buf (j * n) (take n (srcs ! j))) [0..<m]
           (replicate (n * length srcs) None)
         = map Some (concat (take m srcs)) @ replicate (n * (length srcs - m)) None"
  using m
proof (induction m)
  case 0
  show ?case by simp
next
  case (Suc m)
  let ?W = "length srcs"
  let ?A = "map Some (concat (take m srcs))"
  have mW: "m < ?W" using Suc.prems by simp
  have sm: "length (srcs ! m) = n" using eq mW by simp
  have lenA: "length ?A = m * n"
    using length_concat_equal [of "take m srcs" n] eq mW
    by (auto dest: in_set_takeD)
  have rest: "replicate (n * (?W - m)) None
      = replicate n (None :: 'a option) @ replicate (n * (?W - Suc m)) None"
  proof -
    have "n * (?W - m) = n + n * (?W - Suc m)"
      using mW by (metis Suc_diff_Suc mult_Suc_right)
    then show ?thesis by (simp add: replicate_add)
  qed
  have tk: "take (Suc m) srcs = take m srcs @ [srcs ! m]"
    using mW by (rule take_Suc_conv_app_nth)
  have "fold (\<lambda>j buf. write_block buf (j * n) (take n (srcs ! j))) [0..<Suc m]
           (replicate (n * ?W) None)
        = write_block (?A @ replicate (n * (?W - m)) None) (m * n) (take n (srcs ! m))"
    using Suc by simp
  also have "\<dots> = ?A @ map Some (srcs ! m) @ replicate (n * (?W - Suc m)) None"
    unfolding write_block_def rest using lenA sm by simp
  also have "\<dots> = map Some (concat (take (Suc m) srcs)) @ replicate (n * (?W - Suc m)) None"
    unfolding tk by simp
  finally show ?case .
qed

lemma allGather_concat:
  assumes eq: "\<forall>s \<in> set srcs. length s = n" and me: "me < length srcs"
  shows "allGather srcs me (replicate (n * length srcs) None) = map Some (concat srcs)"
proof -
  have "length (srcs ! me) = n" using eq me by simp
  then show ?thesis
    unfolding allGather_def Let_def
    using gather_prefix [OF eq order_refl] by simp
qed


text \<open>
  Claim C8. When every worker holds the same number \<open>n\<close> of local predictions (or
  labels), the all-gather into the buffer of \<open>n * world_size\<close> cells leaves on every rank
  the concatenation of the workers' local tensors in rank order, each in its local
  order, and no cell unwritten: \<open>n * world_size\<close> entries, six for two workers with
  three predictions each. The local tensors hold the local lists themselves when the
  values fit 32 bits.
\<close>

theorem gather_global_concat:
  assumes eq: "\<forall>pd \<in> set pds. length pd = n" and me: "me < length pds"
  shows "gather_global pds me = map Some (concat (map (map int32) pds))
       \<and> length (gather_global pds me) = n * length pds
       \<and> (list_all (list_all in_int32) pds \<longrightarrow> gather_global pds me = map Some (concat pds))"
proof -
  let ?loc = "map (map int32) pds"
  have eq': "\<forall>s \<in> set ?loc. length s = n" using eq by simp
  have me': "me < length ?loc" using me by simp
  have n: "length (pds ! me) = n" using eq me by simp
  have run: "gather_global pds me = map Some (concat ?loc)"
    unfolding gather_global_def Let_def n
    using allGather_concat [OF eq' me'] by simp
  have len: "length (concat ?loc) = length ?loc * n"
    using eq' by (rule length_concat_equal)
  have same: "?loc = pds" if "list_all (list_all in_int32) pds"
    using that by (induction pds) (simp_all add: map_int32_id)
  show ?thesis
    using run len same by (simp add: mult.commute)
qed

theorem gather_global_concat_witness:
  "gather_global [[1, 0, 1], [0, 0, 1]] 0 = [Some 1, Some 0, Some 1, Some 0, Some 0, Some 1]
   \<and> gather_global [[1, 0, 1], [0, 0, 1]] 1 = [Some 1, Some 0, Some 1, Some 0, Some 0, Some 1]
   \<and> length (gather_global [[1, 0, 1], [0, 0, 1]] 1) = 6"
proof -
  have h: "\<forall>pd \<in> set [[1, 0, 1], [0, 0, 1 :: int]]. length pd = 3" by simp
  have ok: "list_all (list_all in_int32) [[1, 0, 1], [0, 0, 1]]" by (simp add: in_int32_def)
  show ?thesis
    using gather_global_concat [OF h, of 0] gather_global_concat [OF h, of 1] ok
    by (simp add: int32_def)
qed

section \<open>Properties of the embedding layer\<close>

text \<open>
  Claim C10. \<open>Embedding.forward\<close> returns the lookup \<open>OpEmbedding(ids, weight)\<close> divided by
  \<open>sqrt(embedding_size)\<close> when \<open>length_scale\<close> is set and unchanged otherwise;
  \<open>Embedding.projection\<close> returns the linear projection of the transposed input against
  the same weight, the input divided by \<open>sqrt(embedding_size)\<close> beforehand exactly when
  \<open>length_scale\<close> is set; neither changes the module, its weight included. (For an
  embedding size of zero the division is by zero and has a value only on a tensor
  without entries.)
\<close>

theorem embedding_forward_projection:
  fixes self :: embedding
  defines "scaled t \<equiv> (if length_scale self
                         then map (map (map (\<lambda>v. v / sqrt (real (dim_model self))))) t
                         else t)"
  assumes dim: "0 < dim_model self"
    and look: "OpEmbedding ids (weight self) = Inr embeds"
    and tr: "ct_transpose (scaled x) = Inr xt"
    and lin: "F_linear xt (weight self) = Inr logits"
  shows "forward OpEmbedding self ids = Inr (self, scaled embeds)
       \<and> projection F_linear ct_transpose self x = Inr (self, logits)"
proof (cases "length_scale self")
  case True
  then show ?thesis
    using dim look tr lin unfolding scaled_def
    by (simp add: forward_def projection_def div_scalar_def)
next
  case False
  then show ?thesis
    using look tr lin unfolding scaled_def
    by (simp add: forward_def projection_def)
qed

theorem embedding_forward_projection_witness:
  "forward demo_lookup demo_embedding [[1, 0]]
      = Inr (demo_embedding, [[[1 / 2, 1], [3 / 2, 2], [5 / 2, 3], [7 / 2, 4]]])
   \<and> projection demo_linear demo_transpose demo_embedding [[[2, 4], [6, 8], [10, 12], [14, 16]]]
      = Inr (demo_embedding, [[[100, 84], [120, 100]]])"
proof -
  have dim: "0 < dim_model demo_embedding" by (simp add: demo_embedding_def)
  have rt: "sqrt (real (dim_model demo_embedding)) = 2"
    using real_sqrt_abs [of 2] by (simp add: demo_embedding_def)
  have look: "demo_lookup [[1, 0]] (weight demo_embedding) = Inr [[[1, 2], [3, 4], [5, 6], [7, 8]]]"
    by (simp add: demo_lookup_def demo_embedding_def)
  have tr: "demo_transpose (if length_scale demo_embedding
         then map (map (map (\<lambda>v. v / sqrt (real (dim_model demo_embedding)))))
                [[[2, 4], [6, 8], [10, 12], [14, 16]]]
         else [[[2, 4], [6, 8], [10, 12], [14, 16]]]) = Inr [[[1, 3, 5, 7], [2, 4, 6, 8]]]"
    unfolding rt by (simp add: demo_transpose_def demo_embedding_def)
  have lin: "demo_linear [[[1, 3, 5, 7], [2, 4, 6, 8]]] (weight demo_embedding)
      = Inr [[[100, 84], [120, 100]]]"
    by (simp add: demo_linear_def demo_embedding_def)
  show ?thesis
    using embedding_forward_projection [of demo_embedding demo_lookup "[[1, 0]]" _ demo_transpose
        "[[[2, 4], [6, 8], [10, 12], [14, 16]]]" _ demo_linear, OF dim look tr lin]
    by (simp add: rt) (simp add: demo_embedding_def)
qed

section \<open>Properties of gradient-norm clipping\<close>

lemma fold_plus: "fold (+) xs (x :: real) = x + sum_list xs"
  by (induction xs arbitrary: x) simp_all

lemma fold_max: "fold max xs (x :: real) = Max (set (x # xs))"
  by (simp only: Max.set_eq_fold)

lemma sum_abs_pow_nonneg: "0 \<le> (\<Sum>x\<leftarrow>g. \<bar>x :: real\<bar> ^ k)"
  by (rule sum_list_nonneg) auto

lemma tensor_norm_pow:
  assumes "0 < k"
  shows "tensor_norm k g ^ k = (\<Sum>x\<leftarrow>g. \<bar>x\<bar> ^ k)"
  unfolding tensor_norm_def using assms sum_abs_pow_nonneg by (rule real_root_pow_pos2)

lemma fold_acc_sum:
  "fold (\<lambda>g total. total + f g) gs (a :: real) = a + sum_list (map f gs)"
  by (induction gs arbitrary: a) simp_all

lemma local_norm_P:
  assumes "0 < k"
  shows "local_norm (NormP k) w = Inr (\<Sum>x\<leftarrow>concat (grad_tensors w). \<bar>x\<bar> ^ k)"
proof -
  have "(\<Sum>g\<leftarrow>grad_tensors w. tensor_norm k g ^ k) = (\<Sum>g\<leftarrow>grad_tensors w. \<Sum>x\<leftarrow>g. \<bar>x\<bar> ^ k)"
    by (simp only: tensor_norm_pow [OF assms])
  also have "\<dots> = (\<Sum>x\<leftarrow>concat (grad_tensors w). \<bar>x\<bar> ^ k)"
  proof -
    have "(\<Sum>g\<leftarrow>gs. \<Sum>x\<leftarrow>g. \<bar>x\<bar> ^ k) = (\<Sum>x\<leftarrow>concat gs. \<bar>x :: real\<bar> ^ k)" for gs
      by (induction gs) simp_all
    then show ?thesis .
  qed
  finally show ?thesis by (simp add: fold_acc_sum)
qed


lemma sum_list_concat_map:
  "(\<Sum>w\<leftarrow>ws. \<Sum>x\<leftarrow>concat (f w). h x) = (\<Sum>x\<leftarrow>concat (concat (map f ws)). (h x :: real))"
  by (induction ws) simp_all

lemma global_norm_P:
  assumes k: "0 < k"
  shows "global_norm (NormP k) ws = Inr (root k (\<Sum>x\<leftarrow>all_entries ws. \<bar>x\<bar> ^ k))"
proof -
  let ?f = "\<lambda>w. \<Sum>x\<leftarrow>concat (grad_tensors w). \<bar>x\<bar> ^ k"
  have seq: "sequence (map (local_norm (NormP k)) ws) = Inr (map ?f ws)"
    by (rule sequence_all_Inr) (intro ballI local_norm_P k)
  have tot: "sum_list (map ?f ws) = (\<Sum>x\<leftarrow>all_entries ws. \<bar>x\<bar> ^ k)"
    unfolding all_entries_def by (rule sum_list_concat_map)
  show ?thesis
  proof (cases ws)
    case Nil
    then show ?thesis using k by (simp add: global_norm_def all_entries_def)
  next
    case (Cons w ws')
    have "global_norm (NormP k) ws = Inr (root k (sum_list (map ?f ws)))"
      unfolding global_norm_def seq using k by (simp add: Cons fold_plus)
    then show ?thesis by (simp only: tot)
  qed
qed

lemma abs_max_Max:
  assumes "g \<noteq> []"
  shows "abs_max g = Inr (Max (set (map abs g)))"
proof -
  obtain x xs where g: "g = x # xs" using assms by (cases g) auto
  show ?thesis unfolding g by (simp only: abs_max.simps fold_max list.map)
qed

lemma py_max_Max:
  assumes "ms \<noteq> []"
  shows "py_max ms = Inr (Max (set ms))"
proof -
  obtain x xs where ms: "ms = x # xs" using assms by (cases ms) auto
  show ?thesis unfolding ms by (simp only: py_max.simps fold_max)
qed

lemma Max_concat:
  assumes "gs \<noteq> []" and "[] \<notin> set gs"
  shows "Max (set (map (\<lambda>g. Max (set g)) gs)) = Max (set (concat gs :: real list))"
  using assms
proof (induction gs)
  case Nil then show ?case by simp
next
  case (Cons g gs)
  have g: "g \<noteq> []" using Cons.prems by auto
  show ?case
  proof (cases "gs = []")
    case True then show ?thesis by simp
  next
    case False
    have ne: "concat gs \<noteq> []" using False Cons.prems by (cases gs) auto
    have ih: "Max (set (map (\<lambda>g. Max (set g)) gs)) = Max (set (concat gs))"
      using Cons False by auto
    have "Max (set (map (\<lambda>g. Max (set g)) (g # gs))) = max (Max (set g)) (Max (set (map (\<lambda>g. Max (set g)) gs)))"
      using False by simp
    also have "\<dots> = max (Max (set g)) (Max (set (concat gs)))" by (simp only: ih)
    also have "\<dots> = Max (set g \<union> set (concat gs))"
      using g ne by (simp add: Max.union)
    finally show ?thesis by simp
  qed
qed

lemma local_norm_Inf:
  assumes "grad_tensors w \<noteq> []" and "[] \<notin> set (grad_tensors w)"
  shows "local_norm NormInf w = Inr (Max (set (map abs (concat (grad_tensors w)))))"
proof -
  let ?gs = "grad_tensors w"
  have seq: "sequence (map abs_max ?gs) = Inr (map (\<lambda>g. Max (set (map abs g))) ?gs)"
  proof (rule sequence_all_Inr, rule ballI)
    fix g assume "g \<in> set ?gs"
    then have "g \<noteq> []" using assms by auto
    then show "abs_max g = Inr (Max (set (map abs g)))" by (rule abs_max_Max)
  qed
  have ne: "map (\<lambda>g. Max (set (map abs g))) ?gs \<noteq> []" using assms by simp
  have "local_norm NormInf w = Inr (Max (set (map (\<lambda>g. Max (set (map abs g))) ?gs)))"
    by (simp only: local_norm.simps seq sum.case py_max_Max [OF ne])
  also have "map (\<lambda>g. Max (set (map abs g))) ?gs = map (\<lambda>g. Max (set g)) (map (map abs) ?gs)"
    by (simp add: comp_def)
  also have "Max (set (map (\<lambda>g. Max (set g)) (map (map abs) ?gs))) = Max (set (concat (map (map abs) ?gs)))"
    by (rule Max_concat) (use assms in auto)
  finally show ?thesis by (simp add: map_concat)
qed

lemma global_norm_Inf:
  assumes ws: "ws \<noteq> []"
    and tracked: "\<forall>w \<in> set ws. grad_tensors w \<noteq> [] \<and> [] \<notin> set (grad_tensors w)"
  shows "global_norm NormInf ws = Inr (Max (set (map abs (all_entries ws))))"
proof -
  let ?f = "\<lambda>w. Max (set (map abs (concat (grad_tensors w))))"
  have seq: "sequence (map (local_norm NormInf) ws) = Inr (map ?f ws)"
  proof (rule sequence_all_Inr, rule ballI)
    fix w assume "w \<in> set ws"
    then have "grad_tensors w \<noteq> []" "[] \<notin> set (grad_tensors w)" using tracked by auto
    then show "local_norm NormInf w = Inr (?f w)" by (rule local_norm_Inf)
  qed
  obtain w ws' where c: "ws = w # ws'" using ws by (cases ws) auto
  have "global_norm NormInf ws = Inr (Max (set (map ?f ws)))"
    unfolding global_norm_def seq by (simp add: c fold_max)
  also have "map ?f ws = map (\<lambda>g. Max (set g)) (map (\<lambda>w. map abs (concat (grad_tensors w))) ws)"
    by (simp add: comp_def)
  also have "Max (set \<dots>) = Max (set (concat (map (\<lambda>w. map abs (concat (grad_tensors w))) ws)))"
  proof (rule Max_concat)
    show "map (\<lambda>w. map abs (concat (grad_tensors w))) ws \<noteq> []" using ws by simp
    show "[] \<notin> set (map (\<lambda>w. map abs (concat (grad_tensors w))) ws)"
    proof
      assume "[] \<in> set (map (\<lambda>w. map abs (concat (grad_tensors w))) ws)"
      then obtain w where w: "w \<in> set ws" "concat (grad_tensors w) = []" by auto
      then have "grad_tensors w \<noteq> []" "[] \<notin> set (grad_tensors w)" using tracked by auto
      then show False using w(2) by (cases "grad_tensors w") auto
    qed
  qed
  also have "concat (map (\<lambda>w. map abs (concat (grad_tensors w))) ws) = map abs (all_entries ws)"
    unfolding all_entries_def by (induction ws) simp_all
  finally show ?thesis .
qed

lemma grad_tensors_a: "grad_tensors worker_a = [[3, 4]]"
  by (simp add: grad_tensors_def worker_a_def List.map_filter_simps)

lemma grad_tensors_b: "grad_tensors worker_b = [[0, 0]]"
  by (simp add: grad_tensors_def worker_b_def List.map_filter_simps)

lemma grad_tensors_c: "grad_tensors worker_c = [[1, - 2], [- 4]]"
  by (simp add: grad_tensors_def worker_c_def List.map_filter_simps)

lemma parameters_a: "parameters worker_a = [0]"
  by (simp add: parameters_def worker_a_def)

lemma parameters_b: "parameters worker_b = [0]"
  by (simp add: parameters_def worker_b_def)

lemma parameters_c: "parameters worker_c = [0, 2]"
  by (simp add: parameters_def worker_c_def)

lemma global_norm_P_workers:
  assumes k: "0 < k"
  shows "global_norm (NormP k) ws
           = Inr (root k (\<Sum>w\<leftarrow>ws. \<Sum>g\<leftarrow>grad_tensors w. tensor_norm k g ^ k))"
proof -
  have "(\<Sum>w\<leftarrow>ws. \<Sum>g\<leftarrow>grad_tensors w. tensor_norm k g ^ k)
      = (\<Sum>w\<leftarrow>ws. \<Sum>g\<leftarrow>grad_tensors w. \<Sum>x\<leftarrow>g. \<bar>x\<bar> ^ k)"
    by (simp only: tensor_norm_pow [OF k])
  also have "\<dots> = (\<Sum>x\<leftarrow>all_entries ws. \<bar>x\<bar> ^ k)"
    unfolding all_entries_def
  proof (induction ws)
    case Nil show ?case by simp
  next
    case (Cons w ws)
    have "(\<Sum>g\<leftarrow>gs. \<Sum>x\<leftarrow>g. \<bar>x\<bar> ^ k) = (\<Sum>x\<leftarrow>concat gs. \<bar>x :: real\<bar> ^ k)" for gs
      by (induction gs) simp_all
    then show ?case using Cons by simp
  qed
  finally show ?thesis using global_norm_P [OF k, of ws] by simp
qed

text \<open>
  Claim C1. The norm that \<open>clip_grad_norm\<close> aggregates over the workers is the norm of
  the concatenation of all workers' gradients. For \<open>'inf'\<close>, every worker holding at
  least one tracked gradient and no tensor without elements, it is the largest absolute
  entry over all workers. For a finite order \<open>p \<ge> 1\<close> it is the \<open>p\<close>-th root of the sum
  over all workers and tensors of the \<open>p\<close>-th powers of the absolute entries, which is
  the \<open>p\<close>-th root of the sum over the workers of each worker's sum of its tensors' norms
  raised to the \<open>p\<close>-th power; for \<open>p = 2\<close> the square root of the sum of squares.
\<close>

theorem global_norm_concatenation:
  "(ws \<noteq> [] \<and> (\<forall>w \<in> set ws. grad_tensors w \<noteq> [] \<and> [] \<notin> set (grad_tensors w))
      \<longrightarrow> global_norm NormInf ws = Inr (Max (set (map abs (all_entries ws)))))
   \<and> (0 < p \<longrightarrow> global_norm (NormP p) ws = Inr (root p (\<Sum>x\<leftarrow>all_entries ws. \<bar>x\<bar> ^ p))
                \<and> global_norm (NormP p) ws = Inr (tensor_norm p (all_entries ws))
                \<and> global_norm (NormP p) ws
                     = Inr (root p (\<Sum>w\<leftarrow>ws. \<Sum>g\<leftarrow>grad_tensors w. tensor_norm p g ^ p)))
   \<and> global_norm (NormP 2) ws = Inr (sqrt (\<Sum>x\<leftarrow>all_entries ws. x\<^sup>2))"
proof (intro conjI impI)
  assume "ws \<noteq> [] \<and> (\<forall>w \<in> set ws. grad_tensors w \<noteq> [] \<and> [] \<notin> set (grad_tensors w))"
  then show "global_norm NormInf ws = Inr (Max (set (map abs (all_entries ws))))"
    using global_norm_Inf by blast
next
  assume "0 < p"
  then show "global_norm (NormP p) ws = Inr (root p (\<Sum>x\<leftarrow>all_entries ws. \<bar>x\<bar> ^ p))"
    by (rule global_norm_P)
next
  assume "0 < p"
  then show "global_norm (NormP p) ws = Inr (tensor_norm p (all_entries ws))"
    unfolding tensor_norm_def by (rule global_norm_P)
next
  assume "0 < p"
  then show "global_norm (NormP p) ws
               = Inr (root p (\<Sum>w\<leftarrow>ws. \<Sum>g\<leftarrow>grad_tensors w. tensor_norm p g ^ p))"
    by (rule global_norm_P_workers)
next
  show "global_norm (NormP 2) ws = Inr (sqrt (\<Sum>x\<leftarrow>all_entries ws. x\<^sup>2))"
    using global_norm_P [of 2 ws] by (simp add: sqrt_def)
qed

theorem global_norm_concatenation_witness:
  "global_norm NormInf [worker_a, worker_c] = Inr 4
   \<and> global_norm (NormP 1) [worker_a, worker_c] = Inr 14
   \<and> global_norm (NormP 2) [worker_a, worker_b] = Inr 5"
proof -
  have e1: "all_entries [worker_a, worker_c] = [3, 4, 1, - 2, - 4]"
    by (simp add: all_entries_def grad_tensors_a grad_tensors_c)
  have e2: "all_entries [worker_a, worker_b] = [3, 4, 0, 0]"
    by (simp add: all_entries_def grad_tensors_a grad_tensors_b)
  have h: "[worker_a, worker_c] \<noteq> []
      \<and> (\<forall>w \<in> set [worker_a, worker_c]. grad_tensors w \<noteq> [] \<and> [] \<notin> set (grad_tensors w))"
    by (simp add: grad_tensors_a grad_tensors_c)
  have a: "global_norm NormInf [worker_a, worker_c] = Inr 4"
    using global_norm_concatenation [of "[worker_a, worker_c]" 1] h by (simp add: e1)
  have b: "global_norm (NormP 1) [worker_a, worker_c] = Inr 14"
    using global_norm_concatenation [of "[worker_a, worker_c]" 1] by (simp add: e1)
  have s: "sqrt 25 = 5" using real_sqrt_abs [of 5] by simp
  have c: "global_norm (NormP 2) [worker_a, worker_b] = Inr 5"
    using global_norm_concatenation [of "[worker_a, worker_b]" 1] by (simp add: e2 s)
  from a b c show ?thesis by simp
qed

lemma param_groups_fold_mul: "param_groups (fold (mul_in_place c) ps w) = param_groups w"
  by (induction ps arbitrary: w) (simp_all add: mul_in_place_def)

lemma grad_mul_in_place:
  "grad (mul_in_place c p w) q = (if q = p then map_option (map (\<lambda>x. x * c)) (grad w p) else grad w q)"
  by (simp add: mul_in_place_def)

lemma grad_fold_mul_notin:
  "q \<notin> set ps \<Longrightarrow> grad (fold (mul_in_place c) ps w) q = grad w q"
  by (induction ps arbitrary: w) (simp_all add: grad_mul_in_place)

lemma grad_fold_mul_distinct:
  assumes "distinct ps"
  shows "grad (fold (mul_in_place c) ps w) q =
           (if q \<in> set ps then map_option (map (\<lambda>x. x * c)) (grad w q) else grad w q)"
  using assms
proof (induction ps arbitrary: w)
  case Nil show ?case by simp
next
  case (Cons p ps)
  show ?case
  proof (cases "q = p")
    case True
    then have "q \<notin> set ps" using Cons.prems by simp
    then show ?thesis using True by (simp add: grad_fold_mul_notin grad_mul_in_place)
  next
    case False
    then show ?thesis using Cons by (simp add: grad_mul_in_place)
  qed
qed

lemma rescale_Inr:
  assumes "total_norm + eps \<noteq> 0" and "scale \<noteq> 0"
  shows "rescale max_norm scale eps total_norm w =
     Inr (if clip_coef max_norm scale eps total_norm < 1
          then fold (mul_in_place (clip_coef max_norm scale eps total_norm)) (parameters w) w
          else w,
          total_norm / scale)"
  using assms by (simp add: rescale_def)

lemma clip_grad_norm_run:
  assumes "global_norm nt ws = Inr total_norm" and "total_norm + eps \<noteq> 0" and "scale \<noteq> 0"
  shows "clip_grad_norm ws max_norm scale nt eps =
     Inr (map (\<lambda>w. (if clip_coef max_norm scale eps total_norm < 1
                     then fold (mul_in_place (clip_coef max_norm scale eps total_norm)) (parameters w) w
                     else w,
                     total_norm / scale)) ws)"
  unfolding clip_grad_norm_def assms(1) sum.case
  by (rule sequence_all_Inr) (simp add: rescale_Inr [OF assms(2,3)])

lemma clip_grad_norm_Inr_D:
  assumes "clip_grad_norm ws max_norm scale nt eps = Inr res"
  shows "\<exists>total_norm. global_norm nt ws = Inr total_norm
           \<and> (ws \<noteq> [] \<longrightarrow> total_norm + eps \<noteq> 0 \<and> scale \<noteq> 0)
           \<and> res = map (\<lambda>w. (if clip_coef max_norm scale eps total_norm < 1
                     then fold (mul_in_place (clip_coef max_norm scale eps total_norm)) (parameters w) w
                     else w,
                     total_norm / scale)) ws"
proof -
  obtain total_norm where t: "global_norm nt ws = Inr total_norm"
    using assms by (cases "global_norm nt ws") (simp_all add: clip_grad_norm_def)
  have seq: "sequence (map (rescale max_norm scale eps total_norm) ws) = Inr res"
    using assms by (simp add: clip_grad_norm_def t)
  show ?thesis
  proof (cases "ws = []")
    case True
    then show ?thesis using t seq by simp
  next
    case False
    then obtain w ws' where ws: "ws = w # ws'" by (cases ws) auto
    have ok: "total_norm + eps \<noteq> 0 \<and> scale \<noteq> 0"
    proof (rule ccontr)
      assume "\<not> (total_norm + eps \<noteq> 0 \<and> scale \<noteq> 0)"
      then have "rescale max_norm scale eps total_norm w = Inl NonFinite"
        by (auto simp: rescale_def)
      then show False using seq by (simp add: ws)
    qed
    then have "clip_grad_norm ws max_norm scale nt eps =
     Inr (map (\<lambda>w. (if clip_coef max_norm scale eps total_norm < 1
                     then fold (mul_in_place (clip_coef max_norm scale eps total_norm)) (parameters w) w
                     else w,
                     total_norm / scale)) ws)"
      using t by (intro clip_grad_norm_run) simp_all
    then show ?thesis using t ok assms by simp
  qed
qed

text \<open>
  Claim C2. A call that returns has multiplied every tracked gradient of every worker,
  each parameter being listed once in the worker's groups, by the factor
  \<open>min(1, max_norm * scale / (total_norm + eps))\<close>: by the coefficient itself when it is
  below 1, and not at all when it is at least 1. No tracked gradient is skipped;
  parameters without gradient and the groups stay as they are.
\<close>

theorem clip_grad_norm_scales_every_gradient:
  assumes run: "clip_grad_norm ws max_norm scale nt eps = Inr res"
    and once: "\<forall>w \<in> set ws. distinct (parameters w)"
  shows "\<exists>total_norm. global_norm nt ws = Inr total_norm
           \<and> length res = length ws
           \<and> (\<forall>i < length ws.
                 param_groups (fst (res ! i)) = param_groups (ws ! i)
                 \<and> (\<forall>p. grad (fst (res ! i)) p =
                      (if p \<in> set (parameters (ws ! i))
                       then map_option
                              (map (\<lambda>x. x * min 1 (clip_coef max_norm scale eps total_norm)))
                              (grad (ws ! i) p)
                       else grad (ws ! i) p)))
           \<and> (1 \<le> clip_coef max_norm scale eps total_norm \<longrightarrow> map fst res = ws)"
proof -
  from clip_grad_norm_Inr_D [OF run] obtain total_norm where
    t: "global_norm nt ws = Inr total_norm" and
    res: "res = map (\<lambda>w. (if clip_coef max_norm scale eps total_norm < 1
                     then fold (mul_in_place (clip_coef max_norm scale eps total_norm)) (parameters w) w
                     else w,
                     total_norm / scale)) ws"
    by blast
  let ?c = "clip_coef max_norm scale eps total_norm"
  have len: "length res = length ws" by (simp add: res)
  have each: "param_groups (fst (res ! i)) = param_groups (ws ! i)
                 \<and> (\<forall>p. grad (fst (res ! i)) p =
                      (if p \<in> set (parameters (ws ! i))
                       then map_option (map (\<lambda>x. x * min 1 ?c)) (grad (ws ! i) p)
                       else grad (ws ! i) p))" if i: "i < length ws" for i
  proof (cases "?c < 1")
    case True
    have d: "distinct (parameters (ws ! i))" using once i by simp
    have m: "min 1 ?c = ?c" using True by simp
    show ?thesis
      using True i by (simp add: res m param_groups_fold_mul grad_fold_mul_distinct [OF d])
  next
    case False
    then have m: "min 1 ?c = 1" by simp
    have "map_option (map (\<lambda>x. x * (1 :: real))) v = v" for v
      by (cases v) simp_all
    then show ?thesis using False i by (simp add: res m)
  qed
  have same: "map fst res = ws" if "1 \<le> ?c"
    using that by (simp add: res comp_def)
  show ?thesis using t len each same by blast
qed

lemma sqrt_25: "sqrt 25 = 5"
  using real_sqrt_abs [of 5] by simp

lemma global_norm_a_b: "global_norm (NormP 2) [worker_a, worker_b] = Inr 5"
  using global_norm_P [of 2 "[worker_a, worker_b]"]
  by (simp add: all_entries_def grad_tensors_a grad_tensors_b sqrt_def [symmetric] sqrt_25)

lemma global_norm_a_c: "global_norm NormInf [worker_a, worker_c] = Inr 4"
  using global_norm_Inf [of "[worker_a, worker_c]"]
  by (simp add: all_entries_def grad_tensors_a grad_tensors_c)

theorem clip_grad_norm_scales_every_gradient_witness:
  "\<exists>res. clip_grad_norm [worker_a, worker_c] 2 1 NormInf default_eps = Inr res
     \<and> length res = 2
     \<and> grad (fst (res ! 0)) 0 = Some [3 * (2000000 / 4000001), 4 * (2000000 / 4000001)]
     \<and> grad (fst (res ! 1)) 0 = Some [1 * (2000000 / 4000001), - 2 * (2000000 / 4000001)]
     \<and> grad (fst (res ! 1)) 1 = None
     \<and> grad (fst (res ! 1)) 2 = Some [- 4 * (2000000 / 4000001)]"
proof -
  have c: "clip_coef 2 1 default_eps 4 = 2000000 / 4000001"
    by (simp add: clip_coef_def default_eps_def)
  have "\<exists>res. clip_grad_norm [worker_a, worker_c] 2 1 NormInf default_eps = Inr res"
    using clip_grad_norm_run [OF global_norm_a_c, of default_eps 1 2]
    by (simp add: default_eps_def)
  then obtain res where run: "clip_grad_norm [worker_a, worker_c] 2 1 NormInf default_eps = Inr res"
    by blast
  have once: "\<forall>w \<in> set [worker_a, worker_c]. distinct (parameters w)"
    by (simp add: parameters_a parameters_c)
  from clip_grad_norm_scales_every_gradient [OF run once] global_norm_a_c
  have len: "length res = 2"
    and each: "\<And>i p. i < 2 \<Longrightarrow> grad (fst (res ! i)) p =
                      (if p \<in> set (parameters ([worker_a, worker_c] ! i))
                       then map_option (map (\<lambda>x. x * min 1 (clip_coef 2 1 default_eps 4)))
                              (grad ([worker_a, worker_c] ! i) p)
                       else grad ([worker_a, worker_c] ! i) p)"
    by auto
  have g0: "grad (fst (res ! 0)) 0 = Some [3 * (2000000 / 4000001), 4 * (2000000 / 4000001)]"
    using each [of 0 0] by (simp add: c parameters_a) (simp add: worker_a_def)
  have g1: "grad (fst (res ! 1)) 0 = Some [1 * (2000000 / 4000001), - 2 * (2000000 / 4000001)]"
    using each [of 1 0] by (simp add: c parameters_c) (simp add: worker_c_def)
  have g2: "grad (fst (res ! 1)) 1 = None"
    using each [of 1 1] by (simp add: c parameters_c) (simp add: worker_c_def)
  have g3: "grad (fst (res ! 1)) 2 = Some [- 4 * (2000000 / 4000001)]"
    using each [of 1 2] by (simp add: c parameters_c) (simp add: worker_c_def)
  show ?thesis using run len g0 g1 g2 g3 by blast
qed

lemma fold_mul_a:
  "fold (mul_in_place c) (parameters worker_a) worker_a
     = \<lparr> param_groups = [[0]], grad = (\<lambda>p. None)(0 := Some [3 * c, 4 * c]) \<rparr>"
  by (simp add: parameters_a mul_in_place_def) (simp add: worker_a_def)

lemma fold_mul_b: "fold (mul_in_place c) (parameters worker_b) worker_b = worker_b"
  by (simp add: parameters_b mul_in_place_def) (simp add: worker_b_def)

text \<open>
  Claim C3, as amended. Two workers hold the single gradient tensors \<open>[3, 4]\<close> and
  \<open>[0, 0]\<close>; the call has the L2 norm, threshold 1, scale 1 and any \<open>eps \<ge> 0\<close>. The
  global norm is 5, the clip coefficient is \<open>1 / (5 + eps)\<close>, the first worker's gradient
  becomes \<open>[3 / (5 + eps), 4 / (5 + eps)]\<close> and the second worker's stays \<open>[0, 0]\<close>. The
  values 0.2 and \<open>[0.6, 0.8]\<close> are those of \<open>eps = 0\<close>; the default \<open>eps\<close> of one
  millionth gives 1000000/5000001.
\<close>

theorem clip_scenario:
  assumes "0 \<le> eps"
  shows "global_norm (NormP 2) [worker_a, worker_b] = Inr 5
       \<and> clip_coef 1 1 eps 5 = 1 / (5 + eps)
       \<and> clip_grad_norm [worker_a, worker_b] 1 1 (NormP 2) eps =
           Inr [(\<lparr> param_groups = [[0]],
                   grad = (\<lambda>p. None)(0 := Some [3 / (5 + eps), 4 / (5 + eps)]) \<rparr>, 5),
                (worker_b, 5)]"
proof -
  have c: "clip_coef 1 1 eps 5 = 1 / (5 + eps)" by (simp add: clip_coef_def)
  have lt: "1 / (5 + eps) < 1" using assms by simp
  have ne: "5 + eps \<noteq> 0" using assms by simp
  have "clip_grad_norm [worker_a, worker_b] 1 1 (NormP 2) eps =
           Inr [(\<lparr> param_groups = [[0]],
                   grad = (\<lambda>p. None)(0 := Some [3 / (5 + eps), 4 / (5 + eps)]) \<rparr>, 5),
                (worker_b, 5)]"
    using clip_grad_norm_run [OF global_norm_a_b ne, of 1 1] lt
    by (simp add: c fold_mul_a fold_mul_b)
  then show ?thesis using global_norm_a_b c by simp
qed

theorem clip_scenario_witness:
  "clip_grad_norm [worker_a, worker_b] 1 1 default_norm_type default_eps =
           Inr [(worker_a_clipped, 5), (worker_b, 5)]
   \<and> clip_coef 1 1 default_eps 5 = 1000000 / 5000001
   \<and> clip_grad_norm [worker_a, worker_b] 1 1 default_norm_type 0 =
           Inr [(\<lparr> param_groups = [[0]], grad = (\<lambda>p. None)(0 := Some [6 / 10, 8 / 10]) \<rparr>, 5),
                (worker_b, 5)]
   \<and> clip_coef 1 1 0 5 = 2 / 10"
proof -
  have a: "(0 :: real) \<le> default_eps" by (simp add: default_eps_def)
  have b: "(0 :: real) \<le> 0" by simp
  show ?thesis
    using clip_scenario [OF a] clip_scenario [OF b]
    by (simp add: default_norm_type_def worker_a_clipped_def) (simp add: default_eps_def)
qed

lemma first_call_a_b:
  "clip_grad_norm [worker_a, worker_b] 1 1 default_norm_type default_eps =
           Inr [(worker_a_clipped, 5), (worker_b, 5)]"
proof -
  have ne: "5 + default_eps \<noteq> 0" by (simp add: default_eps_def)
  have c: "clip_coef 1 1 default_eps 5 = 1000000 / 5000001"
    by (simp add: clip_coef_def default_eps_def)
  show ?thesis
    unfolding default_norm_type_def
    using clip_grad_norm_run [OF global_norm_a_b ne, of 1 1]
    by (simp add: c fold_mul_a fold_mul_b worker_a_clipped_def)
qed

theorem clip_scenario_counterexample:
  "clip_grad_norm [worker_a, worker_b] 1 1 default_norm_type default_eps =
           Inr [(worker_a_clipped, 5), (worker_b, 5)]
   \<and> grad worker_a_clipped 0 = Some [3000000 / 5000001, 4000000 / 5000001]
   \<and> grad worker_a_clipped 0 \<noteq> Some [6 / 10, 8 / 10]
   \<and> clip_coef 1 1 default_eps 5 \<noteq> 2 / 10"
  using first_call_a_b
  by (simp add: clip_coef_def default_eps_def) (simp add: worker_a_clipped_def)

lemma fold_max_ge: "(a :: real) \<le> fold max xs a"
proof (induction xs arbitrary: a)
  case Nil show ?case by simp
next
  case (Cons x xs)
  have "a \<le> max x a" by simp
  also have "\<dots> \<le> fold max xs (max x a)" by (rule Cons)
  finally show ?case by simp
qed

lemma abs_max_nonneg: "abs_max g = Inr m \<Longrightarrow> 0 \<le> m"
proof (cases g)
  case Nil then show "abs_max g = Inr m \<Longrightarrow> 0 \<le> m" by simp
next
  case (Cons x xs)
  assume "abs_max g = Inr m"
  then have "m = fold max (map abs xs) \<bar>x\<bar>" by (simp add: Cons)
  moreover have "\<bar>x\<bar> \<le> fold max (map abs xs) \<bar>x\<bar>" by (rule fold_max_ge)
  ultimately show "0 \<le> m" by simp
qed

lemma local_norm_Inf_nonneg:
  assumes "local_norm NormInf w = Inr l"
  shows "0 \<le> l"
proof -
  obtain ms where seq: "sequence (map abs_max (grad_tensors w)) = Inr ms" and l: "py_max ms = Inr l"
    using assms by (cases "sequence (map abs_max (grad_tensors w))") simp_all
  obtain m ms' where ms: "ms = m # ms'" using l by (cases ms) simp_all
  have "map abs_max (grad_tensors w) = map Inr ms" using seq by (rule sequence_Inr_D)
  then obtain g where "abs_max g = Inr m" by (auto simp: ms map_eq_Cons_conv)
  then have "0 \<le> m" by (rule abs_max_nonneg)
  moreover have "m \<le> l" using l fold_max_ge [of m ms'] by (simp add: ms)
  ultimately show ?thesis by simp
qed

lemma global_norm_nonneg:
  assumes "global_norm nt ws = Inr t"
  shows "0 \<le> t"
proof (cases nt)
  case (NormP k)
  show ?thesis
  proof (cases "ws = []")
    case True
    then show ?thesis using assms by (simp add: global_norm_def)
  next
    case False
    have k: "0 < k"
    proof (rule ccontr)
      assume "\<not> 0 < k"
      then have k0: "k = 0" by simp
      have "sequence (map (local_norm (NormP 0)) ws)
          = Inr (map (\<lambda>w. fold (\<lambda>g total. total + tensor_norm 0 g ^ 0) (grad_tensors w) 0) ws)"
        by (rule sequence_all_Inr) simp
      then show False using assms False unfolding NormP k0 global_norm_def
        by (cases ws) simp_all
    qed
    have "t = root k (\<Sum>x\<leftarrow>all_entries ws. \<bar>x\<bar> ^ k)"
      using assms global_norm_P [OF k, of ws] by (simp add: NormP)
    then show ?thesis using k sum_abs_pow_nonneg [where g = "all_entries ws" and k = k] by simp
  qed
next
  case NormInf
  obtain ls where seq: "sequence (map (local_norm NormInf) ws) = Inr ls"
    using assms by (cases "sequence (map (local_norm NormInf) ws)") (simp_all add: global_norm_def NormInf)
  show ?thesis
  proof (cases ls)
    case Nil
    then show ?thesis using assms seq by (simp add: global_norm_def NormInf)
  next
    case (Cons l ls')
    have t: "t = fold max ls' l" using assms seq by (simp add: global_norm_def NormInf Cons)
    have "map (local_norm NormInf) ws = map Inr ls" using seq by (rule sequence_Inr_D)
    then obtain w where "local_norm NormInf w = Inr l" by (auto simp: Cons map_eq_Cons_conv)
    then have "0 \<le> l" by (rule local_norm_Inf_nonneg)
    moreover have "l \<le> t" unfolding t by (rule fold_max_ge)
    ultimately show ?thesis by simp
  qed
qed

lemma clip_decision:
  assumes "0 < scale" and "0 < total_norm + eps"
  shows "clip_coef max_norm scale eps total_norm < 1
           \<longleftrightarrow> max_norm < total_norm / scale + eps / scale"
proof -
  have "clip_coef max_norm scale eps total_norm < 1 \<longleftrightarrow> max_norm * scale < total_norm + eps"
    using assms(2) by (simp add: clip_coef_def)
  also have "\<dots> \<longleftrightarrow> max_norm < (total_norm + eps) / scale"
    using assms(1) by (simp add: pos_less_divide_eq)
  finally show ?thesis by (simp add: add_divide_distrib)
qed

text \<open>
  Claim C5, as amended. A call that returns gives every worker \<open>total_norm / scale\<close>, the
  aggregated norm of the raw gradients divided by the scale argument, whether it clipped
  or not. The scale is not divided out of the norm before the comparison: it is
  multiplied into the threshold, and \<open>eps\<close> is added to the norm still scaled. For
  \<open>scale > 0\<close> and \<open>eps > 0\<close> the gradients are rescaled exactly when
  \<open>max_norm < total_norm / scale + eps / scale\<close>: the unscaled norm plus \<open>eps / scale\<close> is
  what is compared with \<open>max_norm\<close>.
\<close>

theorem clip_grad_norm_returns_unscaled_norm:
  assumes run: "clip_grad_norm ws max_norm scale nt eps = Inr res"
    and scale: "0 < scale" and eps: "0 < eps"
  shows "\<exists>total_norm. global_norm nt ws = Inr total_norm
           \<and> length res = length ws
           \<and> (\<forall>i < length ws.
                 snd (res ! i) = total_norm / scale
                 \<and> fst (res ! i) =
                     (if max_norm < total_norm / scale + eps / scale
                      then fold (mul_in_place (clip_coef max_norm scale eps total_norm))
                             (parameters (ws ! i)) (ws ! i)
                      else ws ! i))"
proof -
  from clip_grad_norm_Inr_D [OF run] obtain total_norm where
    t: "global_norm nt ws = Inr total_norm" and
    res: "res = map (\<lambda>w. (if clip_coef max_norm scale eps total_norm < 1
                     then fold (mul_in_place (clip_coef max_norm scale eps total_norm)) (parameters w) w
                     else w,
                     total_norm / scale)) ws"
    by blast
  have "0 \<le> total_norm" using t by (rule global_norm_nonneg)
  then have pos: "0 < total_norm + eps" using eps by simp
  note dec = clip_decision [OF scale pos, of max_norm]
  have "length res = length ws" by (simp add: res)
  moreover have "snd (res ! i) = total_norm / scale
                 \<and> fst (res ! i) =
                     (if max_norm < total_norm / scale + eps / scale
                      then fold (mul_in_place (clip_coef max_norm scale eps total_norm))
                             (parameters (ws ! i)) (ws ! i)
                      else ws ! i)" if "i < length ws" for i
    using that by (simp add: res dec)
  ultimately show ?thesis using t by blast
qed

lemma global_norm_two: "global_norm (NormP 2) [worker_two] = Inr 2"
proof -
  have g: "grad_tensors worker_two = [[2]]"
    by (simp add: grad_tensors_def worker_two_def List.map_filter_simps)
  have "sqrt 4 = 2" using real_sqrt_abs [of 2] by simp
  then show ?thesis
    using global_norm_P [of 2 "[worker_two]"]
    by (simp add: all_entries_def g sqrt_def [symmetric])
qed

lemma call_two:
  "clip_grad_norm [worker_two] (4000001 / 4000000) 2 default_norm_type default_eps
     = Inr [(worker_two_clipped, 1)]"
proof -
  have ne: "2 + default_eps \<noteq> 0" by (simp add: default_eps_def)
  have c: "clip_coef (4000001 / 4000000) 2 default_eps 2 = 4000001 / 4000002"
    by (simp add: clip_coef_def default_eps_def)
  have p: "parameters worker_two = [0]" by (simp add: parameters_def worker_two_def)
  have f: "fold (mul_in_place (4000001 / 4000002)) (parameters worker_two) worker_two = worker_two_clipped"
    by (simp add: p mul_in_place_def) (simp add: worker_two_def worker_two_clipped_def)
  show ?thesis
    unfolding default_norm_type_def
    using clip_grad_norm_run [OF global_norm_two ne, of 2 "4000001 / 4000000"]
    by (simp add: c f)
qed

theorem clip_grad_norm_returns_unscaled_norm_witness:
  "clip_grad_norm [worker_two] (4000001 / 4000000) 2 default_norm_type default_eps
     = Inr [(worker_two_clipped, 1)]
   \<and> global_norm default_norm_type [worker_two] = Inr 2
   \<and> snd ([(worker_two_clipped, 1 :: real)] ! 0) = 2 / 2
   \<and> (4000001 / 4000000 :: real) < 2 / 2 + default_eps / 2"
proof -
  have s: "(0 :: real) < 2" and e: "0 < default_eps" by (simp_all add: default_eps_def)
  from clip_grad_norm_returns_unscaled_norm [OF call_two s e]
  have "snd ([(worker_two_clipped, 1 :: real)] ! 0) = 2 / 2"
    using global_norm_two by (auto simp: default_norm_type_def)
  then show ?thesis
    using call_two global_norm_two by (simp add: default_norm_type_def default_eps_def)
qed

theorem clip_decision_counterexample:
  "clip_grad_norm [worker_two] (4000001 / 4000000) 2 default_norm_type default_eps
     = Inr [(worker_two_clipped, 1)]
   \<and> (1 :: real) < 4000001 / 4000000
   \<and> grad worker_two 0 = Some [2]
   \<and> grad worker_two_clipped 0 = Some [4000001 / 2000001]
   \<and> worker_two_clipped \<noteq> worker_two"
proof -
  have "grad worker_two_clipped 0 \<noteq> grad worker_two 0"
    by (simp add: worker_two_def worker_two_clipped_def)
  then have "worker_two_clipped \<noteq> worker_two" by auto
  then show ?thesis
    using call_two by (simp add: worker_two_def worker_two_clipped_def)
qed

lemma map_filter_map_option:
  "List.map_filter (\<lambda>q. map_option f (g q)) qs = map f (List.map_filter g qs)"
  by (induction qs) (auto simp: List.map_filter_simps split: option.splits)

lemma grad_fold_mul_tracked:
  assumes "distinct (parameters w)"
  shows "q \<in> set (concat (param_groups w)) \<Longrightarrow>
     grad (fold (mul_in_place c) (parameters w) w) q = map_option (map (\<lambda>x. x * c)) (grad w q)"
  using grad_fold_mul_distinct [OF assms, of c w q]
  by (cases "grad w q") (auto simp: parameters_def)

lemma grad_tensors_fold_mul:
  assumes "distinct (parameters w)"
  shows "grad_tensors (fold (mul_in_place c) (parameters w) w)
           = map (map (\<lambda>x. x * c)) (grad_tensors w)"
proof -
  have "List.map_filter (grad (fold (mul_in_place c) (parameters w) w)) (concat (param_groups w))
      = List.map_filter (\<lambda>q. map_option (map (\<lambda>x. x * c)) (grad w q)) (concat (param_groups w))"
    unfolding List.map_filter_def
    by (intro arg_cong2 [where f = map] filter_cong map_cong refl ext)
       (simp_all add: grad_fold_mul_tracked [OF assms] comp_def)
  then show ?thesis
    by (simp add: grad_tensors_def param_groups_fold_mul map_filter_map_option)
qed

lemma fold_max_scale:
  assumes "0 \<le> (c :: real)"
  shows "fold max (map (\<lambda>y. y * c) ys) (a * c) = fold max ys a * c"
proof (induction ys arbitrary: a)
  case Nil show ?case by simp
next
  case (Cons y ys)
  have "max (y * c) (a * c) = max y a * c" using assms by (simp add: max_mult_distrib_right)
  then show ?case using Cons [of "max y a"] by simp
qed

lemma abs_max_scale:
  assumes "0 \<le> c"
  shows "abs_max (map (\<lambda>x. x * c) g) = map_sum id (\<lambda>m. m * c) (abs_max g)"
proof (cases g)
  case Nil then show ?thesis by simp
next
  case (Cons x xs)
  have m: "map abs (map (\<lambda>x. x * c) xs) = map (\<lambda>y. y * c) (map abs xs)"
    using assms by (simp add: abs_mult)
  have a: "\<bar>x * c\<bar> = \<bar>x\<bar> * c" using assms by (simp add: abs_mult)
  have "abs_max (map (\<lambda>x. x * c) (x # xs)) = Inr (fold max (map abs xs) \<bar>x\<bar> * c)"
    unfolding list.map abs_max.simps m a fold_max_scale [OF assms] ..
  then show ?thesis
    unfolding Cons by (simp only: abs_max.simps map_sum.simps id_apply)
qed

lemma sequence_map_sum:
  "sequence (map (map_sum id f) rs) = map_sum id (map f) (sequence rs)"
  by (induction rs rule: sequence.induct) (auto split: sum.splits)

lemma py_max_scale:
  assumes "0 \<le> c"
  shows "py_max (map (\<lambda>m. m * c) ms) = map_sum id (\<lambda>m. m * c) (py_max ms)"
  using fold_max_scale [OF assms] by (cases ms) simp_all

lemma local_norm_Inf_scale:
  assumes c: "0 \<le> c" and d: "distinct (parameters w)"
  shows "local_norm NormInf (fold (mul_in_place c) (parameters w) w)
           = map_sum id (\<lambda>l. l * c) (local_norm NormInf w)"
proof -
  have "map abs_max (map (map (\<lambda>x. x * c)) (grad_tensors w))
      = map (map_sum id (\<lambda>m. m * c)) (map abs_max (grad_tensors w))"
    by (simp add: abs_max_scale [OF c] comp_def)
  then have seq: "sequence (map abs_max (grad_tensors (fold (mul_in_place c) (parameters w) w)))
      = map_sum id (map (\<lambda>m. m * c)) (sequence (map abs_max (grad_tensors w)))"
    by (simp only: grad_tensors_fold_mul [OF d] sequence_map_sum)
  show ?thesis
    unfolding local_norm.simps seq
    by (cases "sequence (map abs_max (grad_tensors w))") (simp_all add: py_max_scale [OF c])
qed

lemma all_entries_scale:
  assumes "\<forall>w \<in> set ws. distinct (parameters w)"
  shows "all_entries (map (\<lambda>w. fold (mul_in_place c) (parameters w) w) ws)
           = map (\<lambda>x. x * c) (all_entries ws)"
  using assms
  by (induction ws) (simp_all add: all_entries_def grad_tensors_fold_mul map_concat)

lemma sum_pow_scale:
  assumes "0 \<le> (c :: real)"
  shows "(\<Sum>x\<leftarrow>map (\<lambda>x. x * c) xs. \<bar>x\<bar> ^ k) = (\<Sum>x\<leftarrow>xs. \<bar>x\<bar> ^ k) * c ^ k"
  using assms
  by (induction xs) (simp_all add: abs_mult power_mult_distrib algebra_simps)

lemma global_norm_scale:
  assumes c: "0 \<le> c" and d: "\<forall>w \<in> set ws. distinct (parameters w)"
  shows "global_norm nt (map (\<lambda>w. fold (mul_in_place c) (parameters w) w) ws)
           = map_sum id (\<lambda>t. t * c) (global_norm nt ws)"
proof (cases nt)
  case NormInf
  let ?ws' = "map (\<lambda>w. fold (mul_in_place c) (parameters w) w) ws"
  have "map (local_norm NormInf) ?ws' = map (map_sum id (\<lambda>l. l * c)) (map (local_norm NormInf) ws)"
    unfolding map_map comp_def
    by (rule map_cong [OF refl]) (use d in \<open>simp only: local_norm_Inf_scale [OF c]\<close>)
  then have seq: "sequence (map (local_norm NormInf) ?ws')
      = map_sum id (map (\<lambda>l. l * c)) (sequence (map (local_norm NormInf) ws))"
    by (simp only: sequence_map_sum)
  show ?thesis
  proof (cases "sequence (map (local_norm NormInf) ws)")
    case (Inl e)
    then show ?thesis unfolding NormInf global_norm_def seq by simp
  next
    case (Inr ls)
    then show ?thesis unfolding NormInf global_norm_def seq
      by (cases ls) (simp_all add: fold_max_scale [OF c])
  qed
next
  case (NormP k)
  show ?thesis
  proof (cases "k = 0")
    case True
    have a: "sequence (map (local_norm (NormP 0)) vs)
          = Inr (map (\<lambda>w. fold (\<lambda>g total. total + tensor_norm 0 g ^ 0) (grad_tensors w) 0) vs)" for vs
      by (rule sequence_all_Inr) simp
    show ?thesis unfolding NormP True global_norm_def a by (cases ws) simp_all
  next
    case False
    then have k: "0 < k" by simp
    have "root k ((\<Sum>x\<leftarrow>all_entries ws. \<bar>x\<bar> ^ k) * c ^ k) = root k (\<Sum>x\<leftarrow>all_entries ws. \<bar>x\<bar> ^ k) * c"
      using k c by (simp add: real_root_mult real_root_power_cancel)
    then show ?thesis
      unfolding NormP global_norm_P [OF k] all_entries_scale [OF d] sum_pow_scale [OF c]
      by simp
  qed
qed

lemma clip_coef_again:
  assumes eps: "0 < eps" and N: "0 \<le> total_norm" and ms: "0 \<le> max_norm * scale"
    and c: "clip_coef max_norm scale eps total_norm < 1"
  shows "clip_coef max_norm scale eps (total_norm * clip_coef max_norm scale eps total_norm) < 1"
proof -
  define a where "a = max_norm * scale"
  define d where "d = total_norm + eps"
  have d: "0 < d" using eps N by (simp add: d_def)
  have a: "a < d" using c d by (simp add: clip_coef_def a_def d_def)
  have a0: "0 \<le> a" using ms by (simp add: a_def)
  have "a - total_norm * (a / d) = a * eps / d"
    using d by (simp add: field_simps d_def)
  also have "\<dots> < eps"
  proof -
    have "a * eps < d * eps" using a eps by simp
    then show ?thesis using d by (simp add: pos_divide_less_eq mult.commute)
  qed
  finally have lt: "a < total_norm * (a / d) + eps" by simp
  have "0 \<le> total_norm * (a / d)" using N a0 d by simp
  then have pos: "0 < total_norm * (a / d) + eps" using eps by linarith
  have "a / (total_norm * (a / d) + eps) < 1" using lt pos by simp
  then show ?thesis by (simp add: clip_coef_def a_def d_def)
qed

lemma second_call_clips_again:
  assumes first: "clip_grad_norm ws max_norm scale nt eps = Inr res"
    and once: "\<forall>w \<in> set ws. distinct (parameters w)"
    and eps: "0 < eps" and ms: "0 \<le> max_norm * scale"
    and t: "global_norm nt ws = Inr total_norm"
    and c: "clip_coef max_norm scale eps total_norm < 1"
  shows "global_norm nt (map fst res)
           = Inr (total_norm * clip_coef max_norm scale eps total_norm)
       \<and> clip_coef max_norm scale eps (total_norm * clip_coef max_norm scale eps total_norm) < 1"
proof -
  let ?c = "clip_coef max_norm scale eps total_norm"
  from clip_grad_norm_Inr_D [OF first] t c
  have res: "map fst res = map (\<lambda>w. fold (mul_in_place ?c) (parameters w) w) ws"
    by (auto simp: comp_def)
  have N: "0 \<le> total_norm" using t by (rule global_norm_nonneg)
  then have cpos: "0 \<le> ?c" using ms eps by (simp add: clip_coef_def)
  have "global_norm nt (map fst res) = Inr (total_norm * ?c)"
    unfolding res using global_norm_scale [OF cpos once, of nt] by (simp add: t)
  then show ?thesis using clip_coef_again [OF eps N ms c] by simp
qed

text \<open>
  Claim C4, as amended. A second call with the same arguments leaves every gradient as
  the first call left it when the first call did not clip (its coefficient was at least
  1) and, each parameter being listed once, when \<open>eps = 0\<close> and \<open>max_norm * scale > 0\<close>:
  the second coefficient is then exactly 1. (With \<open>eps > 0\<close> a call that clipped leaves a
  norm whose coefficient is again below 1, see \<open>second_call_clips_again\<close>, and the
  second call rescales once more.)
\<close>

theorem clip_grad_norm_second_call:
  assumes first: "clip_grad_norm ws max_norm scale nt eps = Inr res"
    and once: "\<forall>w \<in> set ws. distinct (parameters w)"
    and cond: "(eps = 0 \<and> 0 < max_norm * scale)
             \<or> (\<forall>total_norm. global_norm nt ws = Inr total_norm
                    \<longrightarrow> 1 \<le> clip_coef max_norm scale eps total_norm)"
  shows "\<exists>res'. clip_grad_norm (map fst res) max_norm scale nt eps = Inr res'
               \<and> map fst res' = map fst res"
proof -
  from clip_grad_norm_Inr_D [OF first] obtain total_norm where
    t: "global_norm nt ws = Inr total_norm" and
    ok: "ws \<noteq> [] \<longrightarrow> total_norm + eps \<noteq> 0 \<and> scale \<noteq> 0" and
    res: "res = map (\<lambda>w. (if clip_coef max_norm scale eps total_norm < 1
                     then fold (mul_in_place (clip_coef max_norm scale eps total_norm)) (parameters w) w
                     else w,
                     total_norm / scale)) ws"
    by blast
  let ?c = "clip_coef max_norm scale eps total_norm"
  show ?thesis
  proof (cases "?c < 1")
    case False
    then have "map fst res = ws" by (simp add: res comp_def)
    then show ?thesis using first by simp
  next
    case True
    with cond t have eps: "eps = 0" and ms: "0 < max_norm * scale" by auto
    show ?thesis
    proof (cases "ws = []")
      case True
      then show ?thesis by (simp add: res clip_grad_norm_def global_norm_def)
    next
      case False
      have nz: "total_norm \<noteq> 0" and sc: "scale \<noteq> 0" using ok False eps by simp_all
      have "0 \<le> total_norm" using t by (rule global_norm_nonneg)
      then have pos: "0 < total_norm" using nz by simp
      have c: "?c = max_norm * scale / total_norm" by (simp add: clip_coef_def eps)
      have cpos: "0 \<le> ?c" using ms pos by (simp add: c)
      let ?ws' = "map (\<lambda>w. fold (mul_in_place ?c) (parameters w) w) ws"
      have ws': "map fst res = ?ws'" using True by (simp add: res comp_def)
      have "global_norm nt ?ws' = Inr (total_norm * ?c)"
        using global_norm_scale [OF cpos once, of nt] by (simp add: t)
      also have "total_norm * ?c = max_norm * scale" using nz by (simp add: c)
      finally have t': "global_norm nt ?ws' = Inr (max_norm * scale)" .
      have ms0: "max_norm * scale \<noteq> 0" using ms by (metis less_irrefl)
      then have ne': "max_norm * scale + eps \<noteq> 0" by (simp only: eps add_0_right not_False_eq_True)
      have "max_norm * scale / (max_norm * scale) = 1" using ms0 by (rule divide_self)
      then have one: "clip_coef max_norm scale eps (max_norm * scale) = 1"
        by (simp only: clip_coef_def eps add_0_right)
      have "clip_grad_norm ?ws' max_norm scale nt eps
          = Inr (map (\<lambda>w. (w, max_norm * scale / scale)) ?ws')"
        using clip_grad_norm_run [OF t' ne' sc, of max_norm] by (simp add: one)
      then show ?thesis unfolding ws' by (simp add: comp_def)
    qed
  qed
qed

lemma first_call_exact:
  "clip_grad_norm [worker_a, worker_b] 1 1 (NormP 2) 0 = Inr [(worker_a_exact, 5), (worker_b, 5)]"
proof -
  have ne: "(5 :: real) + 0 \<noteq> 0" by simp
  have c: "clip_coef 1 1 0 5 = 1 / 5" by (simp add: clip_coef_def)
  show ?thesis
    using clip_grad_norm_run [OF global_norm_a_b ne, of 1 1]
    by (simp add: c fold_mul_a fold_mul_b worker_a_exact_def)
qed

lemma first_call_loose:
  "clip_grad_norm [worker_a, worker_b] 10 1 (NormP 2) default_eps = Inr [(worker_a, 5), (worker_b, 5)]"
proof -
  have ne: "5 + default_eps \<noteq> 0" by (simp add: default_eps_def)
  have c: "\<not> clip_coef 10 1 default_eps 5 < 1" by (simp add: clip_coef_def default_eps_def)
  show ?thesis
    using clip_grad_norm_run [OF global_norm_a_b ne, of 1 10] c by simp
qed

theorem clip_grad_norm_second_call_witness:
  "(\<exists>res'. clip_grad_norm [worker_a_exact, worker_b] 1 1 (NormP 2) 0 = Inr res'
            \<and> map fst res' = [worker_a_exact, worker_b])
   \<and> (\<exists>res'. clip_grad_norm [worker_a, worker_b] 10 1 (NormP 2) default_eps = Inr res'
            \<and> map fst res' = [worker_a, worker_b])"
proof -
  have once: "\<forall>w \<in> set [worker_a, worker_b]. distinct (parameters w)"
    by (simp add: parameters_a parameters_b)
  have c1: "((0 :: real) = 0 \<and> (0 :: real) < 1 * 1)
             \<or> (\<forall>total_norm. global_norm (NormP 2) [worker_a, worker_b] = Inr total_norm
                    \<longrightarrow> 1 \<le> clip_coef 1 1 0 total_norm)"
    by simp
  have c2: "(default_eps = 0 \<and> (0 :: real) < 10 * 1)
             \<or> (\<forall>total_norm. global_norm (NormP 2) [worker_a, worker_b] = Inr total_norm
                    \<longrightarrow> 1 \<le> clip_coef 10 1 default_eps total_norm)"
    by (simp add: global_norm_a_b clip_coef_def default_eps_def)
  show ?thesis
    using clip_grad_norm_second_call [OF first_call_exact once c1]
      clip_grad_norm_second_call [OF first_call_loose once c2]
    by simp
qed

lemma global_norm_clipped:
  "global_norm (NormP 2) [worker_a_clipped, worker_b] = Inr (5000000 / 5000001)"
proof -
  have g: "grad_tensors worker_a_clipped = [[3000000 / 5000001, 4000000 / 5000001]]"
    by (simp add: grad_tensors_def worker_a_clipped_def List.map_filter_simps)
  have "sqrt ((5000000 / 5000001)\<^sup>2) = 5000000 / 5000001"
    by (simp only: real_sqrt_abs abs_divide abs_numeral)
  moreover have "(3000000 / 5000001 :: real)\<^sup>2 + (4000000 / 5000001)\<^sup>2 = (5000000 / 5000001)\<^sup>2"
    by (simp add: power2_eq_square)
  ultimately have "sqrt ((3000000 / 5000001)\<^sup>2 + (4000000 / 5000001)\<^sup>2) = 5000000 / 5000001"
    by simp
  then show ?thesis
    using global_norm_P [of 2 "[worker_a_clipped, worker_b]"]
    by (simp add: all_entries_def g grad_tensors_b sqrt_def [symmetric])
qed

lemma second_call_a_b:
  "clip_grad_norm [worker_a_clipped, worker_b] 1 1 default_norm_type default_eps
     = Inr [(worker_a_clipped_twice, 5000000 / 5000001), (worker_b, 5000000 / 5000001)]"
proof -
  have ne: "5000000 / 5000001 + default_eps \<noteq> 0" by (simp add: default_eps_def)
  have c: "clip_coef 1 1 default_eps (5000000 / 5000001) = 5000001000000 / 5000005000001"
    by (simp add: clip_coef_def default_eps_def)
  have p: "parameters worker_a_clipped = [0]" by (simp add: parameters_def worker_a_clipped_def)
  have f: "fold (mul_in_place (5000001000000 / 5000005000001)) (parameters worker_a_clipped)
             worker_a_clipped = worker_a_clipped_twice"
    by (simp add: p mul_in_place_def) (simp add: worker_a_clipped_def worker_a_clipped_twice_def)
  show ?thesis
    unfolding default_norm_type_def
    using clip_grad_norm_run [OF global_norm_clipped ne, of 1 1]
    by (simp add: c f fold_mul_b)
qed

theorem clip_twice_counterexample:
  "clip_grad_norm [worker_a, worker_b] 1 1 default_norm_type default_eps
     = Inr [(worker_a_clipped, 5), (worker_b, 5)]
   \<and> clip_grad_norm [worker_a_clipped, worker_b] 1 1 default_norm_type default_eps
     = Inr [(worker_a_clipped_twice, 5000000 / 5000001), (worker_b, 5000000 / 5000001)]
   \<and> clip_coef 1 1 default_eps (5000000 / 5000001) < 1
   \<and> grad worker_a_clipped 0 = Some [3000000 / 5000001, 4000000 / 5000001]
   \<and> grad worker_a_clipped_twice 0 = Some [3000000000000 / 5000005000001,
                                            4000000000000 / 5000005000001]
   \<and> worker_a_clipped_twice \<noteq> worker_a_clipped"
proof -
  have "grad worker_a_clipped_twice 0 \<noteq> grad worker_a_clipped 0"
    by (simp add: worker_a_clipped_def worker_a_clipped_twice_def)
  then have "worker_a_clipped_twice \<noteq> worker_a_clipped" by auto
  then show ?thesis
    using first_call_a_b second_call_a_b
    by (simp add: clip_coef_def default_eps_def) (simp add: worker_a_clipped_def worker_a_clipped_twice_def)
qed

end
